theory Spec2Isabelle
  imports Complex_Main "HOL-Library.AList"
begin

section \<open>Values of the PR curves plugin\<close>

text \<open>
  The plugin (\<^verbatim>\<open>tensorboard/plugins/pr_curve/pr_curves_plugin.py\<close>) reads tensors of
  floating values. A floating value is modelled as an exact real or one of the three
  special values; rounding is not modelled. Python integers are \<open>int\<close>.
\<close>

datatype pyfloat = Fin real | NaN | PosInf | NegInf

type_synonym run = string
type_synonym tag = string

text \<open>
  The exceptions the plugin can raise, as values. \<open>ValueError_no_curves run tag\<close> is the
  \<^verbatim>\<open>ValueError("No PR curves could be found for run %r and tag %r" % (run, tag))\<close>
  of \<^verbatim>\<open>pr_curves_impl\<close>; \<open>ValueError_nan\<close> and \<open>OverflowError_inf\<close> are what
  \<^verbatim>\<open>int(v)\<close> raises on a NaN and on an infinity; \<open>IndexError\<close> is a row index
  past the end of the array; \<open>KeyError\<close> is a missing dictionary key or a missing
  (run, tag) of the multiplexer; \<open>DecodeError\<close> is a failure of the metadata parser.
\<close>

datatype error =
    ValueError_no_curves run tag
  | ValueError_nan
  | OverflowError_inf
  | IndexError
  | KeyError
  | DecodeError

fun is_ValueError :: "error \<Rightarrow> bool" where
  "is_ValueError (ValueError_no_curves r t) = True"
| "is_ValueError ValueError_nan = True"
| "is_ValueError e = False"

text \<open>
  Sequencing of steps that may raise: the first exception ends the computation.
\<close>

definition on_ok :: "error + 'a \<Rightarrow> ('a \<Rightarrow> error + 'b) \<Rightarrow> error + 'b" where
  "on_ok m f = (case m of Inl e \<Rightarrow> Inl e | Inr x \<Rightarrow> f x)"

text \<open>A two-dimensional numpy array, as the list of its rows.\<close>

type_synonym ndarray = "pyfloat list list"

definition is_matrix :: "ndarray \<Rightarrow> nat \<Rightarrow> nat \<Rightarrow> bool" where
  "is_matrix a h w = (length a = h \<and> list_all (\<lambda>r. length r = w) a)"

text \<open>
  Modelled from the spec: the row indices of \<^verbatim>\<open>metadata.py\<close>, which is not part of the
  sources at hand. The rows, by fixed index, are true positives, false positives, true
  negatives, false negatives, precision, recall.
\<close>

definition TRUE_POSITIVES_INDEX :: nat where "TRUE_POSITIVES_INDEX = 0"
definition FALSE_POSITIVES_INDEX :: nat where "FALSE_POSITIVES_INDEX = 1"
definition TRUE_NEGATIVES_INDEX :: nat where "TRUE_NEGATIVES_INDEX = 2"
definition FALSE_NEGATIVES_INDEX :: nat where "FALSE_NEGATIVES_INDEX = 3"
definition PRECISION_INDEX :: nat where "PRECISION_INDEX = 4"
definition RECALL_INDEX :: nat where "RECALL_INDEX = 5"

lemmas index_defs =
  TRUE_POSITIVES_INDEX_def FALSE_POSITIVES_INDEX_def TRUE_NEGATIVES_INDEX_def
  FALSE_NEGATIVES_INDEX_def PRECISION_INDEX_def RECALL_INDEX_def

text \<open>\<^verbatim>\<open>data_array[i]\<close>: the row, or IndexError.\<close>

definition row :: "ndarray \<Rightarrow> nat \<Rightarrow> error + pyfloat list" where
  "row a i = (if i < length a then Inr (a ! i) else Inl IndexError)"

text \<open>Truncation towards zero, the rounding of \<^verbatim>\<open>int(v)\<close> and of \<^verbatim>\<open>astype(int)\<close>.\<close>

definition trunc :: "real \<Rightarrow> int" where
  "trunc r = (if 0 \<le> r then \<lfloor>r\<rfloor> else \<lceil>r\<rceil>)"

text \<open>Python's \<^verbatim>\<open>int(v)\<close> on a floating value: unbounded, raising on NaN and infinities.\<close>

fun py_int :: "pyfloat \<Rightarrow> error + int" where
  "py_int (Fin r) = Inr (trunc r)"
| "py_int NaN = Inl ValueError_nan"
| "py_int PosInf = Inl OverflowError_inf"
| "py_int NegInf = Inl OverflowError_inf"

text \<open>\<^verbatim>\<open>[int(v) for v in xs]\<close>: the first element that raises ends the comprehension.\<close>

fun int_list :: "pyfloat list \<Rightarrow> error + int list" where
  "int_list [] = Inr []"
| "int_list (v # vs) =
     (case py_int v of
        Inl e \<Rightarrow> Inl e
      | Inr n \<Rightarrow> (case int_list vs of Inl e \<Rightarrow> Inl e | Inr ns \<Rightarrow> Inr (n # ns)))"

text \<open>
  numpy's \<^verbatim>\<open>astype(int)\<close> yields signed 64-bit integers. Inside the range the value is
  truncated; outside it (and on NaN and infinities) numpy leaves the result to the
  platform, and the model takes the value x86-64 gives, \<open>- 2 ^ 63\<close>. Sums of such
  integers wrap around.
\<close>

definition int64_min :: int where "int64_min = - (2 ^ 63)"
definition int64_max :: int where "int64_max = 2 ^ 63 - 1"

definition wrap_int64 :: "int \<Rightarrow> int" where
  "wrap_int64 x = (x + 2 ^ 63) mod 2 ^ 64 - 2 ^ 63"

fun astype_int :: "pyfloat \<Rightarrow> int" where
  "astype_int (Fin r) =
     (if int64_min \<le> trunc r \<and> trunc r \<le> int64_max then trunc r else int64_min)"
| "astype_int NaN = int64_min"
| "astype_int PosInf = int64_min"
| "astype_int NegInf = int64_min"

text \<open>
  \<^verbatim>\<open>data_array[[tp_index, fp_index], :].astype(int).sum(axis=0)\<close>: the column sums of
  the two rows after the cast.
\<close>

definition positives_of :: "pyfloat list \<Rightarrow> pyfloat list \<Rightarrow> int list" where
  "positives_of tp fp = map2 (\<lambda>a b. wrap_int64 (astype_int a + astype_int b)) tp fp"

text \<open>
  The loop
  \<^verbatim>\<open>while end_index_inclusive > 0 and positives[end_index_inclusive] == 0:
    end_index_inclusive -= 1\<close>
\<close>

function trim_loop :: "int list \<Rightarrow> int \<Rightarrow> int" where
  "trim_loop positives e =
     (if e > 0 \<and> positives ! nat e = 0 then trim_loop positives (e - 1) else e)"
  by pat_completeness auto
termination
  by (relation "measure (\<lambda>(p, e). nat e)") auto

declare trim_loop.simps [simp del]

definition end_index_of :: "int list \<Rightarrow> int" where
  "end_index_of positives = trim_loop positives (int (length positives) - 1) + 1"

text \<open>The slice \<^verbatim>\<open>xs[:k]\<close>; a negative \<open>k\<close> counts from the end.\<close>

definition slice_to :: "'a list \<Rightarrow> int \<Rightarrow> 'a list" where
  "slice_to xs k =
     (if 0 \<le> k then take (nat k) xs else take (length xs - nat (- k)) xs)"

record pr_entry =
  wall_time :: real
  step :: int
  precision :: "pyfloat list"
  recall :: "pyfloat list"
  true_positives :: "int list"
  false_positives :: "int list"
  true_negatives :: "int list"
  false_negatives :: "int list"
  thresholds :: "real list"

text \<open>
  \<^verbatim>\<open>_make_pr_entry\<close>. The two full rows of positives are cast first, then the trim
  boundary is found, then the dictionary is built in the order of its keys: the rows of
  precision and recall are read before the negatives are cast, and the negatives are
  cast after slicing.
\<close>

definition make_pr_entry ::
  "int \<Rightarrow> real \<Rightarrow> ndarray \<Rightarrow> real list \<Rightarrow> error + pr_entry" where
  "make_pr_entry stp wt data_array ths =
     on_ok (row data_array TRUE_POSITIVES_INDEX) (\<lambda>tp_row.
     on_ok (int_list tp_row) (\<lambda>tps.
     on_ok (row data_array FALSE_POSITIVES_INDEX) (\<lambda>fp_row.
     on_ok (int_list fp_row) (\<lambda>fps.
     let positives = positives_of tp_row fp_row;
         end_index = end_index_of positives
     in
     on_ok (row data_array PRECISION_INDEX) (\<lambda>prec_row.
     on_ok (row data_array RECALL_INDEX) (\<lambda>rec_row.
     on_ok (row data_array TRUE_NEGATIVES_INDEX) (\<lambda>tn_row.
     on_ok (int_list (slice_to tn_row end_index)) (\<lambda>tns.
     on_ok (row data_array FALSE_NEGATIVES_INDEX) (\<lambda>fn_row.
     on_ok (int_list (slice_to fn_row end_index)) (\<lambda>fns.
     Inr \<lparr> wall_time = wt,
           step = stp,
           precision = slice_to prec_row end_index,
           recall = slice_to rec_row end_index,
           true_positives = slice_to tps end_index,
           false_positives = slice_to fps end_index,
           true_negatives = tns,
           false_negatives = fns,
           thresholds = slice_to ths end_index \<rparr>))))))))))"

text \<open>
  \<^verbatim>\<open>_compute_thresholds\<close>:
  \<^verbatim>\<open>[float(v) / num_thresholds for v in range(1, num_thresholds + 1)]\<close>.
  The range is empty when \<open>num_thresholds < 1\<close>, so nothing is divided by zero.
\<close>

definition compute_thresholds :: "int \<Rightarrow> real list" where
  "compute_thresholds num_thresholds =
     map (\<lambda>v. real_of_int v / real_of_int num_thresholds) [1..num_thresholds]"

section \<open>The store and the aggregation over runs\<close>

text \<open>
  The event multiplexer, the metadata parser and the markdown sanitizer are collaborators
  outside the plugin; the plugin's functions take them as parameters. A tensor event
  carries its array already decoded (\<^verbatim>\<open>tensor_util.make_ndarray\<close> is the decoder). A
  lookup that raises KeyError in the multiplexer is \<open>None\<close> here.
\<close>

record tensor_event =
  event_wall_time :: real
  event_step :: int
  tensor_proto :: ndarray

record summary_metadata =
  display_name :: string
  summary_description :: string
  plugin_content :: string

record multiplexer =
  Runs :: "run list"
  Tensors :: "run \<Rightarrow> tag \<Rightarrow> tensor_event list option"
  SummaryMetadata :: "run \<Rightarrow> tag \<Rightarrow> summary_metadata option"
  PluginRunToTagToContent :: "string \<Rightarrow> (run \<times> (tag \<times> string) list) list"

text \<open>\<^verbatim>\<open>_process_tensor_event\<close>\<close>

definition process_tensor_event :: "tensor_event \<Rightarrow> real list \<Rightarrow> error + pr_entry" where
  "process_tensor_event event ths =
     make_pr_entry (event_step event) (event_wall_time event) (tensor_proto event) ths"

text \<open>\<^verbatim>\<open>[self._process_tensor_event(e, thresholds) for e in tensor_events]\<close>\<close>

fun process_events :: "tensor_event list \<Rightarrow> real list \<Rightarrow> error + pr_entry list" where
  "process_events [] ths = Inr []"
| "process_events (ev # evs) ths =
     on_ok (process_tensor_event ev ths) (\<lambda>entry.
     on_ok (process_events evs ths) (\<lambda>entries. Inr (entry # entries)))"

text \<open>
  The body of the loop of \<^verbatim>\<open>pr_curves_impl\<close> for one run: the value stored under
  the run, or the exception raised. \<open>parse\<close> is
  \<^verbatim>\<open>metadata.parse_plugin_metadata(content).num_thresholds\<close>.
\<close>

definition curves_for_run ::
  "(string \<Rightarrow> error + int) \<Rightarrow> multiplexer \<Rightarrow> run \<Rightarrow> tag \<Rightarrow> error + pr_entry list" where
  "curves_for_run parse mux rn tg =
     (case Tensors mux rn tg of
        None \<Rightarrow> Inl (ValueError_no_curves rn tg)
      | Some tensor_events \<Rightarrow>
          on_ok (case SummaryMetadata mux rn tg of None \<Rightarrow> Inl KeyError | Some sm \<Rightarrow> Inr sm)
            (\<lambda>sm.
          on_ok (parse (plugin_content sm)) (\<lambda>num_thresholds.
          process_events tensor_events (compute_thresholds num_thresholds))))"

text \<open>
  A Python dictionary is an association list: \<open>AList.update\<close> replaces the value of
  a key that is present, in place, and appends a new key at the end, as assignment to a
  dictionary entry does.
\<close>

type_synonym response_mapping = "(run \<times> pr_entry list) list"

fun pr_curves_loop ::
  "(string \<Rightarrow> error + int) \<Rightarrow> multiplexer \<Rightarrow> tag \<Rightarrow> run list \<Rightarrow> response_mapping
     \<Rightarrow> error + response_mapping" where
  "pr_curves_loop parse mux tg [] response_mapping = Inr response_mapping"
| "pr_curves_loop parse mux tg (rn # rns) response_mapping =
     on_ok (curves_for_run parse mux rn tg) (\<lambda>entries.
     pr_curves_loop parse mux tg rns (AList.update rn entries response_mapping))"

definition pr_curves_impl ::
  "(string \<Rightarrow> error + int) \<Rightarrow> multiplexer \<Rightarrow> run list \<Rightarrow> tag \<Rightarrow> error + response_mapping" where
  "pr_curves_impl parse mux rns tg = pr_curves_loop parse mux tg rns []"

section \<open>The routes\<close>

text \<open>
  The query parameters of a request, in order; \<^verbatim>\<open>getlist\<close> and \<^verbatim>\<open>get\<close> of the
  multi-dictionary.
\<close>

type_synonym args = "(string \<times> string) list"

definition getlist :: "args \<Rightarrow> string \<Rightarrow> string list" where
  "getlist as k = map snd (filter (\<lambda>p. fst p = k) as)"

definition get :: "args \<Rightarrow> string \<Rightarrow> string option" where
  "get as k = (case getlist as k of [] \<Rightarrow> None | v # vs \<Rightarrow> Some v)"

text \<open>
  \<^verbatim>\<open>http_util.Respond\<close> is outside the plugin. A route is modelled up to its call of
  \<^verbatim>\<open>Respond(request, content, content_type, code)\<close>: the arguments it passes, by
  position. The third positional argument is the content type and the fourth the status
  code, as in \<^verbatim>\<open>Respond(request, str(e), "text/plain", 400)\<close>; a call that passes
  no fourth argument leaves the status code to \<^verbatim>\<open>Respond\<close> (\<open>None\<close>).
\<close>

datatype pyarg = PyStr string | PyInt int

datatype body = Text string | ErrorText error | Json response_mapping

record respond_call =
  content :: body
  content_type :: pyarg
  code :: "int option"

text \<open>
  \<^verbatim>\<open>pr_curves_route\<close>. Only a ValueError of \<^verbatim>\<open>pr_curves_impl\<close> is caught; the
  body of that response is \<^verbatim>\<open>str(e)\<close>.
\<close>

definition pr_curves_route ::
  "(string \<Rightarrow> error + int) \<Rightarrow> multiplexer \<Rightarrow> args \<Rightarrow> error + respond_call" where
  "pr_curves_route parse mux as =
     (let rns = getlist as ''run'' in
      if rns = [] then
        Inr \<lparr> content = Text ''No runs provided when fetching PR curve data'',
              content_type = PyInt 400, code = None \<rparr>
      else
        (case get as ''tag'' of
           None \<Rightarrow>
             Inr \<lparr> content = Text ''No tag provided when fetching PR curve data'',
                   content_type = PyInt 400, code = None \<rparr>
         | Some tg \<Rightarrow>
             if tg = [] then
               Inr \<lparr> content = Text ''No tag provided when fetching PR curve data'',
                     content_type = PyInt 400, code = None \<rparr>
             else
               (case pr_curves_impl parse mux rns tg of
                  Inr response_mapping \<Rightarrow>
                    Inr \<lparr> content = Json response_mapping,
                          content_type = PyStr ''application/json'', code = None \<rparr>
                | Inl e \<Rightarrow>
                    if is_ValueError e then
                      Inr \<lparr> content = ErrorText e,
                            content_type = PyStr ''text/plain'', code = Some 400 \<rparr>
                    else Inl e)))"

section \<open>The tag catalog\<close>

record tag_info =
  displayName :: string
  description :: string

type_synonym tags_result = "(run \<times> (tag \<times> tag_info) list) list"

text \<open>
  The dictionary stored under a tag; \<open>md\<close> is
  \<^verbatim>\<open>plugin_util.markdown_to_safe_html\<close>.
\<close>

definition tag_entry :: "(string \<Rightarrow> string) \<Rightarrow> summary_metadata \<Rightarrow> tag_info" where
  "tag_entry md sm =
     \<lparr> displayName = display_name sm, description = md (summary_description sm) \<rparr>"

text \<open>
  The inner loop of \<^verbatim>\<open>tags_impl\<close> over the tags of one run. The metadata is looked
  up first, then the right-hand side is built, then \<^verbatim>\<open>result[run]\<close> is read (KeyError
  when the run is not a key) and the tag is stored in it.
\<close>

fun tags_of_run ::
  "(string \<Rightarrow> string) \<Rightarrow> multiplexer \<Rightarrow> run \<Rightarrow> (tag \<times> string) list \<Rightarrow> tags_result
     \<Rightarrow> error + tags_result" where
  "tags_of_run md mux rn [] result = Inr result"
| "tags_of_run md mux rn ((tg, c) # rest) result =
     (case SummaryMetadata mux rn tg of
        None \<Rightarrow> Inl KeyError
      | Some sm \<Rightarrow>
          (case map_of result rn of
             None \<Rightarrow> Inl KeyError
           | Some tgs \<Rightarrow>
               tags_of_run md mux rn rest
                 (AList.update rn (AList.update tg (tag_entry md sm) tgs) result)))"

text \<open>The outer loop over the runs of the plugin's index.\<close>

fun tags_loop ::
  "(string \<Rightarrow> string) \<Rightarrow> multiplexer \<Rightarrow> (run \<times> (tag \<times> string) list) list \<Rightarrow> tags_result
     \<Rightarrow> error + tags_result" where
  "tags_loop md mux [] result = Inr result"
| "tags_loop md mux ((rn, tag_to_content) # rest) result =
     on_ok (tags_of_run md mux rn tag_to_content result) (\<lambda>result'.
     tags_loop md mux rest result')"

text \<open>
  \<^verbatim>\<open>tags_impl\<close>; \<open>plugin_name\<close> is \<^verbatim>\<open>metadata.PLUGIN_NAME\<close>. The dictionary
  comprehension \<^verbatim>\<open>{run: {} for run in runs}\<close> stores an empty dictionary under each
  run.
\<close>

definition tags_impl ::
  "(string \<Rightarrow> string) \<Rightarrow> string \<Rightarrow> multiplexer \<Rightarrow> error + tags_result" where
  "tags_impl md plugin_name mux =
     tags_loop md mux (PluginRunToTagToContent mux plugin_name)
       (fold (\<lambda>rn result. AList.update rn [] result) (Runs mux) [])"

section \<open>Domains of the statements\<close>

definition is_finite :: "pyfloat \<Rightarrow> bool" where
  "is_finite v = (case v of Fin r \<Rightarrow> True | _ \<Rightarrow> False)"


text \<open>
  A count: a non-negative whole number in that range, stored as a floating value.
\<close>

definition is_count :: "pyfloat \<Rightarrow> bool" where
  "is_count v =
     (case v of Fin r \<Rightarrow> 0 \<le> r \<and> r < 2 ^ 62 \<and> r = real_of_int \<lfloor>r\<rfloor> | _ \<Rightarrow> False)"

definition is_fraction :: "pyfloat \<Rightarrow> bool" where
  "is_fraction v = (case v of Fin r \<Rightarrow> 0 < r \<and> r < 1 | _ \<Rightarrow> False)"

text \<open>
  A confusion-matrix tensor of width \<open>w\<close>: six rows of length \<open>w\<close>, the positives
  rows holding counts and the negatives rows finite values. Precision and recall are
  unconstrained and may be NaN.
\<close>

definition confusion_tensor :: "ndarray \<Rightarrow> nat \<Rightarrow> bool" where
  "confusion_tensor a w =
     (is_matrix a 6 w \<and>
      list_all is_count (a ! TRUE_POSITIVES_INDEX) \<and>
      list_all is_count (a ! FALSE_POSITIVES_INDEX) \<and>
      list_all is_finite (a ! TRUE_NEGATIVES_INDEX) \<and>
      list_all is_finite (a ! FALSE_NEGATIVES_INDEX))"

text \<open>The local variables \<^verbatim>\<open>positives\<close> and \<^verbatim>\<open>end_index\<close> of \<^verbatim>\<open>_make_pr_entry\<close>.\<close>

definition positives :: "ndarray \<Rightarrow> int list" where
  "positives a = positives_of (a ! TRUE_POSITIVES_INDEX) (a ! FALSE_POSITIVES_INDEX)"

definition end_index :: "ndarray \<Rightarrow> int" where
  "end_index a = end_index_of (positives a)"

text \<open>
  The positives value of a column as the tensor holds it: the true positive plus the
  false positive of that column, as floating values.
\<close>

definition column_positives :: "ndarray \<Rightarrow> nat \<Rightarrow> real option" where
  "column_positives a i =
     (case a ! TRUE_POSITIVES_INDEX ! i of
        Fin x \<Rightarrow> (case a ! FALSE_POSITIVES_INDEX ! i of Fin y \<Rightarrow> Some (x + y) | _ \<Rightarrow> None)
      | _ \<Rightarrow> None)"

text \<open>
  The tags the plugin's index lists under a run, and a store whose index is consistent:
  every run of the index is a known run and every (run, tag) of the index has summary
  metadata.
\<close>

definition plugin_tags :: "(run \<times> (tag \<times> string) list) list \<Rightarrow> run \<Rightarrow> tag list" where
  "plugin_tags mapping rn =
     concat (map (\<lambda>p. map fst (snd p)) (filter (\<lambda>p. fst p = rn) mapping))"

definition metadata_known :: "multiplexer \<Rightarrow> run \<Rightarrow> (tag \<times> string) list \<Rightarrow> bool" where
  "metadata_known mux rn items = list_all (\<lambda>p. SummaryMetadata mux rn (fst p) \<noteq> None) items"

definition store_consistent :: "multiplexer \<Rightarrow> string \<Rightarrow> bool" where
  "store_consistent mux plugin_name =
     list_all (\<lambda>p. fst p \<in> set (Runs mux) \<and> metadata_known mux (fst p) (snd p))
       (PluginRunToTagToContent mux plugin_name)"

text \<open>Tensors used as examples.\<close>

definition example_tensor :: ndarray where
  "example_tensor =
     [[Fin 5, Fin 3, Fin 0],
      [Fin 2, Fin 1, Fin 0],
      [Fin 0, Fin 1, Fin 2],
      [Fin 0, Fin 0, Fin 1],
      [Fin 0.71, Fin 0.75, NaN],
      [Fin 1, Fin 1, Fin 0]]"

definition nan_tensor :: ndarray where
  "nan_tensor =
     [[Fin 0, Fin 3.7, Fin 0],
      [Fin 0, Fin 1, Fin 0],
      [Fin 4, Fin 2, Fin 6],
      [Fin 3, Fin 1, Fin 0],
      [NaN, Fin 0.75, NaN],
      [Fin 0, Fin 0.75, Fin 0]]"

definition fraction_tensor :: ndarray where
  "fraction_tensor =
     [[Fin 2.5, Fin 0.5],
      [Fin 1, Fin 0.25],
      [Fin 0, Fin 1],
      [Fin 0, Fin 2],
      [Fin 0.71, Fin 0.67],
      [Fin 1, Fin 0.2]]"

text \<open>A store used as an example: run A has one event under tag pr, run B has none.\<close>

definition example_event :: tensor_event where
  "example_event = \<lparr> event_wall_time = 1, event_step = 7, tensor_proto = example_tensor \<rparr>"

definition example_metadata :: summary_metadata where
  "example_metadata =
     \<lparr> display_name = ''Curve'', summary_description = ''about'', plugin_content = ''3'' \<rparr>"

definition example_mux :: multiplexer where
  "example_mux =
     \<lparr> Runs = [''A'', ''B''],
       Tensors = (\<lambda>rn tg. if rn = ''A'' \<and> tg = ''pr'' then Some [example_event] else None),
       SummaryMetadata =
         (\<lambda>rn tg. if rn = ''A'' \<and> tg = ''pr'' then Some example_metadata else None),
       PluginRunToTagToContent = (\<lambda>name. [(''A'', [(''pr'', ''3'')]), (''B'', [])]) \<rparr>"

text \<open>
  A store in which run A has an event under tag pr but no summary metadata, and run B has
  nothing.
\<close>

definition metadata_missing_mux :: multiplexer where
  "metadata_missing_mux =
     \<lparr> Runs = [''A'', ''B''],
       Tensors = (\<lambda>rn tg. if rn = ''A'' \<and> tg = ''pr'' then Some [example_event] else None),
       SummaryMetadata = (\<lambda>rn tg. None),
       PluginRunToTagToContent = (\<lambda>name. []) \<rparr>"

definition example_parse :: "string \<Rightarrow> error + int" where
  "example_parse c = (if c = ''3'' then Inr 3 else Inl DecodeError)"

definition example_curve :: pr_entry where
  "example_curve =
     \<lparr> wall_time = 1, step = 7,
       precision = [Fin 0.71, Fin 0.75], recall = [Fin 1, Fin 1],
       true_positives = [5, 3], false_positives = [2, 1],
       true_negatives = [0, 1], false_negatives = [0, 0],
       thresholds = [1 / 3, 2 / 3] \<rparr>"

definition example_md :: "string \<Rightarrow> string" where
  "example_md s = ''<p>'' @ s @ ''</p>''"

section \<open>The trim boundary\<close>

lemma trim_loop_neg: "e \<le> 0 \<Longrightarrow> trim_loop p e = e"
  by (simp add: trim_loop.simps)

lemma trim_loop_bounds: "0 \<le> e \<Longrightarrow> 0 \<le> trim_loop p e \<and> trim_loop p e \<le> e"
proof (induction p e rule: trim_loop.induct)
  case (1 p e)
  show ?case
  proof (cases "e > 0 \<and> p ! nat e = 0")
    case True
    with 1 have "0 \<le> trim_loop p (e - 1) \<and> trim_loop p (e - 1) \<le> e - 1" by simp
    with True show ?thesis by (subst (1 2) trim_loop.simps) simp
  next
    case False
    with 1 show ?thesis by (subst (1 2) trim_loop.simps) auto
  qed
qed

lemma trim_loop_zeros: "trim_loop p e < i \<Longrightarrow> i \<le> e \<Longrightarrow> p ! nat i = 0"
proof (induction p e rule: trim_loop.induct)
  case (1 p e)
  show ?case
  proof (cases "e > 0 \<and> p ! nat e = 0")
    case True
    then have eq: "trim_loop p e = trim_loop p (e - 1)" by (subst trim_loop.simps) simp
    show ?thesis
    proof (cases "i = e")
      case True
      with \<open>e > 0 \<and> p ! nat e = 0\<close> show ?thesis by simp
    next
      case False
      with 1 True eq show ?thesis by simp
    qed
  next
    case False
    then have "trim_loop p e = e" by (subst trim_loop.simps) auto
    with 1 show ?thesis by simp
  qed
qed

lemma trim_loop_stop: "0 < trim_loop p e \<Longrightarrow> p ! nat (trim_loop p e) \<noteq> 0"
proof (induction p e rule: trim_loop.induct)
  case (1 p e)
  show ?case
  proof (cases "e > 0 \<and> p ! nat e = 0")
    case True
    then have eq: "trim_loop p e = trim_loop p (e - 1)" by (subst trim_loop.simps) simp
    with 1 True show ?thesis by simp
  next
    case False
    then have eq: "trim_loop p e = e" by (subst trim_loop.simps) auto
    with 1 False show ?thesis by auto
  qed
qed

lemma end_index_empty: "end_index_of [] = 0"
  by (simp add: end_index_of_def trim_loop_neg)

lemma end_index_bounds:
  "0 \<le> end_index_of p \<and> end_index_of p \<le> int (length p)"
proof (cases "p = []")
  case True
  then show ?thesis by (simp add: end_index_empty)
next
  case False
  then have "0 \<le> int (length p) - 1" by (cases p) auto
  from trim_loop_bounds [OF this, of p] show ?thesis by (simp add: end_index_of_def)
qed

lemma end_index_ge1: "p \<noteq> [] \<Longrightarrow> 1 \<le> end_index_of p"
proof -
  assume "p \<noteq> []"
  then have "0 \<le> int (length p) - 1" by (cases p) auto
  from trim_loop_bounds [OF this, of p] show ?thesis by (simp add: end_index_of_def)
qed

lemma end_index_zeros:
  assumes "end_index_of p \<le> int i" "i < length p"
  shows "p ! i = 0"
proof -
  have "trim_loop p (int (length p) - 1) < int i" "int i \<le> int (length p) - 1"
    using assms by (auto simp: end_index_of_def)
  from trim_loop_zeros [OF this] show ?thesis by simp
qed

lemma end_index_stop:
  assumes "1 < end_index_of p"
  shows "p ! (nat (end_index_of p) - 1) \<noteq> 0"
proof -
  define t where "t = trim_loop p (int (length p) - 1)"
  have pos: "0 < t"
    using assms by (simp add: end_index_of_def t_def)
  then have "nat (t + 1) - 1 = nat t" by linarith
  moreover from trim_loop_stop pos have "p ! nat t \<noteq> 0" unfolding t_def by blast
  ultimately show ?thesis by (simp add: end_index_of_def t_def)
qed

lemma int_list_length: "int_list xs = Inr ns \<Longrightarrow> length ns = length xs"
  by (induction xs arbitrary: ns) (auto split: sum.splits)

lemma int_list_finite:
  "list_all is_finite xs \<Longrightarrow> \<exists>ns. int_list xs = Inr ns"
proof (induction xs)
  case Nil
  then show ?case by simp
next
  case (Cons v vs)
  then obtain ns where "int_list vs = Inr ns" by auto
  moreover from Cons.prems obtain r where "v = Fin r"
    by (cases v) (auto simp: is_finite_def)
  ultimately show ?case by simp
qed

lemma positives_length:
  "length tp = w \<Longrightarrow> length fp = w \<Longrightarrow> length (positives_of tp fp) = w"
  by (simp add: positives_of_def)

lemma wrap_int64_id: "- (2 ^ 63) \<le> x \<Longrightarrow> x < 2 ^ 63 \<Longrightarrow> wrap_int64 x = x"
  by (simp add: wrap_int64_def)

lemma trunc_abs_le: "\<bar>real_of_int (trunc r)\<bar> \<le> \<bar>r\<bar>"
proof (cases "0 \<le> r")
  case True
  then have "0 \<le> \<lfloor>r\<rfloor>" by simp
  moreover have "real_of_int \<lfloor>r\<rfloor> \<le> r" by simp
  ultimately show ?thesis using True by (simp add: trunc_def)
next
  case False
  then have "\<lceil>r\<rceil> \<le> 0" by (simp add: ceiling_le_iff)
  moreover have "r \<le> real_of_int \<lceil>r\<rceil>" by simp
  ultimately show ?thesis using False by (simp add: trunc_def)
qed

lemma trunc_nonneg: "0 \<le> r \<Longrightarrow> 0 \<le> trunc r"
  by (simp add: trunc_def)

lemma trunc_bound:
  assumes "\<bar>r\<bar> < 2 ^ 62"
  shows "- (2 ^ 62) < trunc r \<and> trunc r < 2 ^ 62"
proof -
  have "\<bar>real_of_int (trunc r)\<bar> < 2 ^ 62"
    using trunc_abs_le [of r] assms by linarith
  then have "\<bar>trunc r\<bar> < 2 ^ 62"
    by (metis of_int_abs of_int_less_numeral_power_cancel_iff)
  then show ?thesis by linarith
qed

lemma astype_int_in_range:
  "\<bar>r\<bar> < 2 ^ 62 \<Longrightarrow> astype_int (Fin r) = trunc r"
  using trunc_bound [of r] by (simp add: int64_min_def int64_max_def)

lemma positives_nth:
  assumes "i < length tp" "i < length fp" "tp ! i = Fin x" "fp ! i = Fin y"
    "\<bar>x\<bar> < 2 ^ 62" "\<bar>y\<bar> < 2 ^ 62"
  shows "positives_of tp fp ! i = trunc x + trunc y"
proof -
  have "positives_of tp fp ! i = wrap_int64 (trunc x + trunc y)"
    using assms by (simp add: positives_of_def astype_int_in_range del: astype_int.simps)
  moreover have "wrap_int64 (trunc x + trunc y) = trunc x + trunc y"
    using trunc_bound [OF assms(5)] trunc_bound [OF assms(6)]
    by (intro wrap_int64_id; simp)
  ultimately show ?thesis by simp
qed

lemma make_pr_entry_Inr:
  assumes "make_pr_entry s t a ths = Inr e"
  shows "6 \<le> length a \<and>
    (\<exists>tps fps.
       int_list (a ! TRUE_POSITIVES_INDEX) = Inr tps \<and>
       int_list (a ! FALSE_POSITIVES_INDEX) = Inr fps \<and>
       int_list (slice_to (a ! TRUE_NEGATIVES_INDEX) (end_index a)) = Inr (true_negatives e) \<and>
       int_list (slice_to (a ! FALSE_NEGATIVES_INDEX) (end_index a)) = Inr (false_negatives e) \<and>
       true_positives e = slice_to tps (end_index a) \<and>
       false_positives e = slice_to fps (end_index a) \<and>
       precision e = slice_to (a ! PRECISION_INDEX) (end_index a) \<and>
       recall e = slice_to (a ! RECALL_INDEX) (end_index a) \<and>
       thresholds e = slice_to ths (end_index a) \<and>
       step e = s \<and> wall_time e = t)"
  using assms
  unfolding make_pr_entry_def on_ok_def row_def end_index_def positives_def Let_def
  by (auto simp: index_defs split: if_splits sum.splits)

lemma make_pr_entry_total:
  assumes "length a = 6"
    "list_all is_finite (a ! TRUE_POSITIVES_INDEX)"
    "list_all is_finite (a ! FALSE_POSITIVES_INDEX)"
    "list_all is_finite (a ! TRUE_NEGATIVES_INDEX)"
    "list_all is_finite (a ! FALSE_NEGATIVES_INDEX)"
  shows "\<exists>e. make_pr_entry s t a ths = Inr e"
proof -
  have fin_slice: "list_all is_finite (slice_to xs k)" if "list_all is_finite xs" for xs k
    using that by (auto simp: slice_to_def list_all_iff dest: in_set_takeD)
  obtain tps where 1: "int_list (a ! TRUE_POSITIVES_INDEX) = Inr tps"
    using int_list_finite [OF assms(2)] by blast
  obtain fps where 2: "int_list (a ! FALSE_POSITIVES_INDEX) = Inr fps"
    using int_list_finite [OF assms(3)] by blast
  obtain tns where 3: "int_list (slice_to (a ! TRUE_NEGATIVES_INDEX) (end_index a)) = Inr tns"
    using int_list_finite [OF fin_slice [OF assms(4)]] by blast
  obtain fns where 4: "int_list (slice_to (a ! FALSE_NEGATIVES_INDEX) (end_index a)) = Inr fns"
    using int_list_finite [OF fin_slice [OF assms(5)]] by blast
  show ?thesis
    using assms(1) 1 2 3 4
    unfolding make_pr_entry_def on_ok_def row_def Let_def end_index_def positives_def
    by (simp add: index_defs)
qed


section \<open>The entry of one step\<close>

lemma slice_to_take: "0 \<le> k \<Longrightarrow> slice_to xs k = take (nat k) xs"
  by (simp add: slice_to_def)

lemma end_index_range: "0 \<le> end_index a \<and> end_index a \<le> int (length (positives a))"
  unfolding end_index_def by (rule end_index_bounds)

lemma is_matrix_row: "is_matrix a h w \<Longrightarrow> i < h \<Longrightarrow> length (a ! i) = w"
  by (auto simp: is_matrix_def list_all_length)

lemma positives_width: "is_matrix a 6 w \<Longrightarrow> length (positives a) = w"
  by (simp add: positives_def positives_length is_matrix_row index_defs)

lemma make_pr_entry_take:
  assumes "make_pr_entry s t a ths = Inr e"
  shows "\<exists>tps fps.
       int_list (a ! TRUE_POSITIVES_INDEX) = Inr tps \<and>
       int_list (a ! FALSE_POSITIVES_INDEX) = Inr fps \<and>
       int_list (take (nat (end_index a)) (a ! TRUE_NEGATIVES_INDEX)) = Inr (true_negatives e) \<and>
       int_list (take (nat (end_index a)) (a ! FALSE_NEGATIVES_INDEX)) = Inr (false_negatives e) \<and>
       true_positives e = take (nat (end_index a)) tps \<and>
       false_positives e = take (nat (end_index a)) fps \<and>
       precision e = take (nat (end_index a)) (a ! PRECISION_INDEX) \<and>
       recall e = take (nat (end_index a)) (a ! RECALL_INDEX) \<and>
       thresholds e = take (nat (end_index a)) ths"
  using make_pr_entry_Inr [OF assms] end_index_range [of a]
  by (auto simp: slice_to_take)

lemma entry_lengths:
  assumes "is_matrix a 6 w" "make_pr_entry s t a ths = Inr e"
  shows "length (precision e) = nat (end_index a)"
    "length (recall e) = nat (end_index a)"
    "length (true_positives e) = nat (end_index a)"
    "length (false_positives e) = nat (end_index a)"
    "length (true_negatives e) = nat (end_index a)"
    "length (false_negatives e) = nat (end_index a)"
    "length (thresholds e) = min (length ths) (nat (end_index a))"
proof -
  from make_pr_entry_take [OF assms(2)] obtain tps fps where
    tp: "int_list (a ! TRUE_POSITIVES_INDEX) = Inr tps" and
    fp: "int_list (a ! FALSE_POSITIVES_INDEX) = Inr fps" and
    tn: "int_list (take (nat (end_index a)) (a ! TRUE_NEGATIVES_INDEX)) = Inr (true_negatives e)" and
    fn: "int_list (take (nat (end_index a)) (a ! FALSE_NEGATIVES_INDEX)) = Inr (false_negatives e)" and
    flds: "true_positives e = take (nat (end_index a)) tps"
      "false_positives e = take (nat (end_index a)) fps"
      "precision e = take (nat (end_index a)) (a ! PRECISION_INDEX)"
      "recall e = take (nat (end_index a)) (a ! RECALL_INDEX)"
      "thresholds e = take (nat (end_index a)) ths"
    by blast
  have k: "nat (end_index a) \<le> w"
    using end_index_range [of a] positives_width [OF assms(1)] by linarith
  have rows: "length (a ! i) = w" if "i < 6" for i
    using is_matrix_row [OF assms(1) that] .
  have full: "length tps = w" "length fps = w"
    using int_list_length [OF tp] int_list_length [OF fp] rows by (simp_all add: index_defs)
  show "length (true_negatives e) = nat (end_index a)"
    using int_list_length [OF tn] rows k by (simp add: index_defs)
  show "length (false_negatives e) = nat (end_index a)"
    using int_list_length [OF fn] rows k by (simp add: index_defs)
  show "length (precision e) = nat (end_index a)" "length (recall e) = nat (end_index a)"
    using flds k rows by (simp_all add: index_defs)
  show "length (true_positives e) = nat (end_index a)"
    "length (false_positives e) = nat (end_index a)"
    using flds k full by simp_all
  show "length (thresholds e) = min (length ths) (nat (end_index a))"
    using flds by simp
qed

text \<open>
  Claim C4. For a tensor of six rows of one width and a thresholds sequence of that width,
  the precision, recall, true positives, false positives, true negatives, false negatives
  and thresholds of the entry returned by \<^verbatim>\<open>_make_pr_entry\<close> all have the same length,
  the trimmed length \<^verbatim>\<open>end_index\<close>.
\<close>

theorem entry_lengths_equal:
  assumes "is_matrix a 6 w" "length ths = w" "make_pr_entry s t a ths = Inr e"
  shows "length (precision e) = nat (end_index a) \<and>
         length (recall e) = nat (end_index a) \<and>
         length (true_positives e) = nat (end_index a) \<and>
         length (false_positives e) = nat (end_index a) \<and>
         length (true_negatives e) = nat (end_index a) \<and>
         length (false_negatives e) = nat (end_index a) \<and>
         length (thresholds e) = nat (end_index a)"
proof -
  have "nat (end_index a) \<le> w"
    using end_index_range [of a] positives_width [OF assms(1)] by linarith
  with entry_lengths [OF assms(1,3)] assms(2) show ?thesis by simp
qed

lemma int_list_nth:
  "int_list xs = Inr ns \<Longrightarrow> i < length ns \<Longrightarrow>
   \<exists>r. xs ! i = Fin r \<and> ns ! i = (if 0 \<le> r then \<lfloor>r\<rfloor> else \<lceil>r\<rceil>)"
proof (induction xs arbitrary: ns i)
  case Nil
  then show ?case by simp
next
  case (Cons v vs)
  from Cons.prems(1) obtain n ms where n: "py_int v = Inr n" and ms: "int_list vs = Inr ms"
    and ns: "ns = n # ms"
    by (auto split: sum.splits)
  from n obtain r where r: "v = Fin r" "n = trunc r" by (cases v) auto
  show ?case
  proof (cases i)
    case 0
    with r ns show ?thesis by (simp add: trunc_def)
  next
    case (Suc j)
    with Cons.prems(2) ns have "j < length ms" by simp
    from Cons.IH [OF ms this] Suc ns show ?thesis by simp
  qed
qed

lemma int_list_take_nth:
  assumes "int_list (take k xs) = Inr ns" "i < length ns"
  shows "\<exists>r. xs ! i = Fin r \<and> ns ! i = (if 0 \<le> r then \<lfloor>r\<rfloor> else \<lceil>r\<rceil>)"
proof -
  from int_list_length [OF assms(1)] assms(2) have "i < k" by simp
  then have "take k xs ! i = xs ! i" by simp
  with int_list_nth [OF assms] show ?thesis by simp
qed

lemma take_int_list_nth:
  assumes "int_list xs = Inr ns" "i < length (take k ns)"
  shows "\<exists>r. xs ! i = Fin r \<and> take k ns ! i = (if 0 \<le> r then \<lfloor>r\<rfloor> else \<lceil>r\<rceil>)"
proof -
  from assms(2) have "i < length ns" "take k ns ! i = ns ! i" by simp_all
  with int_list_nth [OF assms(1), of i] show ?thesis by simp
qed

text \<open>
  Claim C5. In the entry returned by \<^verbatim>\<open>_make_pr_entry\<close> each of the four count
  sequences has the length of the first \<^verbatim>\<open>end_index\<close> elements of its row, and its
  element at an index is the row's element there, a finite value, truncated towards zero
  to an integer. Precision and recall are the first \<^verbatim>\<open>end_index\<close> elements of their
  rows, unchanged, NaN included.
\<close>

theorem entry_rows_forwarded:
  assumes "make_pr_entry s t a ths = Inr e"
  shows "precision e = take (nat (end_index a)) (a ! PRECISION_INDEX) \<and>
         recall e = take (nat (end_index a)) (a ! RECALL_INDEX) \<and>
         length (true_positives e) =
           length (take (nat (end_index a)) (a ! TRUE_POSITIVES_INDEX)) \<and>
         length (false_positives e) =
           length (take (nat (end_index a)) (a ! FALSE_POSITIVES_INDEX)) \<and>
         length (true_negatives e) =
           length (take (nat (end_index a)) (a ! TRUE_NEGATIVES_INDEX)) \<and>
         length (false_negatives e) =
           length (take (nat (end_index a)) (a ! FALSE_NEGATIVES_INDEX)) \<and>
         (\<forall>i<length (true_positives e). \<exists>r. a ! TRUE_POSITIVES_INDEX ! i = Fin r \<and>
            true_positives e ! i = (if 0 \<le> r then \<lfloor>r\<rfloor> else \<lceil>r\<rceil>)) \<and>
         (\<forall>i<length (false_positives e). \<exists>r. a ! FALSE_POSITIVES_INDEX ! i = Fin r \<and>
            false_positives e ! i = (if 0 \<le> r then \<lfloor>r\<rfloor> else \<lceil>r\<rceil>)) \<and>
         (\<forall>i<length (true_negatives e). \<exists>r. a ! TRUE_NEGATIVES_INDEX ! i = Fin r \<and>
            true_negatives e ! i = (if 0 \<le> r then \<lfloor>r\<rfloor> else \<lceil>r\<rceil>)) \<and>
         (\<forall>i<length (false_negatives e). \<exists>r. a ! FALSE_NEGATIVES_INDEX ! i = Fin r \<and>
            false_negatives e ! i = (if 0 \<le> r then \<lfloor>r\<rfloor> else \<lceil>r\<rceil>))"
proof -
  from make_pr_entry_take [OF assms] obtain tps fps where
    tp: "int_list (a ! TRUE_POSITIVES_INDEX) = Inr tps" and
    fp: "int_list (a ! FALSE_POSITIVES_INDEX) = Inr fps" and
    tn: "int_list (take (nat (end_index a)) (a ! TRUE_NEGATIVES_INDEX)) = Inr (true_negatives e)" and
    fn: "int_list (take (nat (end_index a)) (a ! FALSE_NEGATIVES_INDEX)) = Inr (false_negatives e)" and
    tpe: "true_positives e = take (nat (end_index a)) tps" and
    fpe: "false_positives e = take (nat (end_index a)) fps" and
    pr: "precision e = take (nat (end_index a)) (a ! PRECISION_INDEX)" and
    re: "recall e = take (nat (end_index a)) (a ! RECALL_INDEX)"
    by blast
  have ltp: "length (true_positives e) =
           length (take (nat (end_index a)) (a ! TRUE_POSITIVES_INDEX))"
    using int_list_length [OF tp] tpe by simp
  have lfp: "length (false_positives e) =
           length (take (nat (end_index a)) (a ! FALSE_POSITIVES_INDEX))"
    using int_list_length [OF fp] fpe by simp
  have ltn: "length (true_negatives e) =
           length (take (nat (end_index a)) (a ! TRUE_NEGATIVES_INDEX))"
    by (rule int_list_length [OF tn])
  have lfn: "length (false_negatives e) =
           length (take (nat (end_index a)) (a ! FALSE_NEGATIVES_INDEX))"
    by (rule int_list_length [OF fn])
  have vtp: "\<forall>i<length (true_positives e). \<exists>r. a ! TRUE_POSITIVES_INDEX ! i = Fin r \<and>
            true_positives e ! i = (if 0 \<le> r then \<lfloor>r\<rfloor> else \<lceil>r\<rceil>)"
    unfolding tpe using take_int_list_nth [OF tp] by blast
  have vfp: "\<forall>i<length (false_positives e). \<exists>r. a ! FALSE_POSITIVES_INDEX ! i = Fin r \<and>
            false_positives e ! i = (if 0 \<le> r then \<lfloor>r\<rfloor> else \<lceil>r\<rceil>)"
    unfolding fpe using take_int_list_nth [OF fp] by blast
  have vtn: "\<forall>i<length (true_negatives e). \<exists>r. a ! TRUE_NEGATIVES_INDEX ! i = Fin r \<and>
            true_negatives e ! i = (if 0 \<le> r then \<lfloor>r\<rfloor> else \<lceil>r\<rceil>)"
    using int_list_take_nth [OF tn] by blast
  have vfn: "\<forall>i<length (false_negatives e). \<exists>r. a ! FALSE_NEGATIVES_INDEX ! i = Fin r \<and>
            false_negatives e ! i = (if 0 \<le> r then \<lfloor>r\<rfloor> else \<lceil>r\<rceil>)"
    using int_list_take_nth [OF fn] by blast
  show ?thesis
    by (intro conjI pr re ltp lfp ltn lfn vtp vfp vtn vfn)
qed


lemma is_count_cases:
  assumes "is_count v"
  obtains r where "v = Fin r" "0 \<le> r" "r < 2 ^ 62" "r = real_of_int \<lfloor>r\<rfloor>"
  using assms by (cases v) (auto simp: is_count_def)


lemma is_count_finite: "is_count v \<Longrightarrow> is_finite v"
  by (cases v) (auto simp: is_count_def is_finite_def)

lemma positives_nonneg:
  assumes "confusion_tensor a w" "i < w"
  shows "0 \<le> positives a ! i"
proof -
  from assms(1) have m: "is_matrix a 6 w"
    and tp: "list_all is_count (a ! TRUE_POSITIVES_INDEX)"
    and fp: "list_all is_count (a ! FALSE_POSITIVES_INDEX)"
    by (simp_all add: confusion_tensor_def)
  have len: "length (a ! TRUE_POSITIVES_INDEX) = w" "length (a ! FALSE_POSITIVES_INDEX) = w"
    using is_matrix_row [OF m] by (simp_all add: index_defs)
  from tp len assms(2) have "is_count (a ! TRUE_POSITIVES_INDEX ! i)"
    by (simp add: list_all_length)
  then obtain x where x: "a ! TRUE_POSITIVES_INDEX ! i = Fin x" "0 \<le> x" "x < 2 ^ 62"
    by (rule is_count_cases)
  from fp len assms(2) have "is_count (a ! FALSE_POSITIVES_INDEX ! i)"
    by (simp add: list_all_length)
  then obtain y where y: "a ! FALSE_POSITIVES_INDEX ! i = Fin y" "0 \<le> y" "y < 2 ^ 62"
    by (rule is_count_cases)
  have "positives a ! i = trunc x + trunc y"
    unfolding positives_def using len assms(2) x y
    by (intro positives_nth) simp_all
  with trunc_nonneg [OF x(2)] trunc_nonneg [OF y(2)] show ?thesis by simp
qed

lemma end_index_positives:
  assumes "confusion_tensor a w" "1 \<le> w"
  shows "1 \<le> end_index a" "end_index a \<le> int w"
    "\<And>i. nat (end_index a) \<le> i \<Longrightarrow> i < w \<Longrightarrow> positives a ! i = 0"
    "1 < end_index a \<Longrightarrow> positives a ! (nat (end_index a) - 1) \<noteq> 0"
    "\<exists>i<w. 0 < positives a ! i \<Longrightarrow>
       end_index a = 1 + int (Max {i. i < w \<and> 0 < positives a ! i})"
    "\<forall>i<w. positives a ! i = 0 \<Longrightarrow> end_index a = 1"
proof -
  from assms(1) have m: "is_matrix a 6 w"
    by (simp add: confusion_tensor_def)
  have w: "length (positives a) = w" by (rule positives_width [OF m])
  with assms(2) have ne: "positives a \<noteq> []" by auto
  have ge1: "1 \<le> end_index a"
    unfolding end_index_def by (rule end_index_ge1 [OF ne])
  have le: "end_index a \<le> int w"
    using end_index_range [of a] w by simp
  have zeros: "positives a ! i = 0" if "nat (end_index a) \<le> i" "i < w" for i
  proof -
    have "end_index_of (positives a) \<le> int i" using that(1) by (simp add: end_index_def)
    from end_index_zeros [OF this] that(2) w show ?thesis by simp
  qed
  have stop: "positives a ! (nat (end_index a) - 1) \<noteq> 0" if "1 < end_index a"
    using end_index_stop [of "positives a"] that by (simp add: end_index_def)
  have allz: "end_index a = 1" if "\<forall>i<w. positives a ! i = 0"
  proof (rule ccontr)
    assume "end_index a \<noteq> 1"
    with ge1 have gt: "1 < end_index a" by simp
    have "nat (end_index a) - 1 < w" using le gt by linarith
    with that stop [OF gt] show False by blast
  qed
  have mx: "end_index a = 1 + int (Max {i. i < w \<and> 0 < positives a ! i})"
    if ex: "\<exists>i<w. 0 < positives a ! i"
  proof -
    let ?S = "{i. i < w \<and> 0 < positives a ! i}"
    let ?m = "nat (end_index a) - 1"
    have fin: "finite ?S" by simp
    have upper: "i \<le> ?m" if "i \<in> ?S" for i
    proof (rule ccontr)
      assume "\<not> i \<le> ?m"
      then have "nat (end_index a) \<le> i" by linarith
      with zeros [of i] that show False by simp
    qed
    have mem: "?m \<in> ?S"
    proof (cases "1 < end_index a")
      case True
      have "?m < w" using le True by linarith
      moreover have "0 \<le> positives a ! ?m" by (rule positives_nonneg [OF assms(1) \<open>?m < w\<close>])
      ultimately show ?thesis using stop [OF True] by simp
    next
      case False
      with ge1 have one: "end_index a = 1" by simp
      from ex obtain i where i: "i < w" "0 < positives a ! i" by blast
      have "i = 0"
      proof (rule ccontr)
        assume "i \<noteq> 0"
        then have "nat (end_index a) \<le> i" using one by simp
        from zeros [OF this i(1)] i(2) show False by simp
      qed
      with i one show ?thesis by simp
    qed
    have "Max ?S = ?m"
      by (rule Max_eqI [OF fin upper mem])
    with ge1 show ?thesis by simp
  qed
  show "1 \<le> end_index a" by (rule ge1)
  show "end_index a \<le> int w" by (rule le)
  show "positives a ! i = 0" if "nat (end_index a) \<le> i" "i < w" for i
    using that by (rule zeros)
  show "positives a ! (nat (end_index a) - 1) \<noteq> 0" if "1 < end_index a"
    using that by (rule stop)
  show "end_index a = 1 + int (Max {i. i < w \<and> 0 < positives a ! i})"
    if "\<exists>i<w. 0 < positives a ! i"
    using that by (rule mx)
  show "end_index a = 1" if "\<forall>i<w. positives a ! i = 0"
    using that by (rule allz)
qed


lemma column_positives_count:
  assumes "confusion_tensor a w" "i < w"
  shows "\<exists>x y. a ! TRUE_POSITIVES_INDEX ! i = Fin x \<and> a ! FALSE_POSITIVES_INDEX ! i = Fin y \<and>
           column_positives a i = Some (x + y) \<and>
           real_of_int (positives a ! i) = x + y"
proof -
  from assms(1) have m: "is_matrix a 6 w"
    and tp: "list_all is_count (a ! TRUE_POSITIVES_INDEX)"
    and fp: "list_all is_count (a ! FALSE_POSITIVES_INDEX)"
    by (simp_all add: confusion_tensor_def)
  have len: "length (a ! TRUE_POSITIVES_INDEX) = w" "length (a ! FALSE_POSITIVES_INDEX) = w"
    using is_matrix_row [OF m] by (simp_all add: index_defs)
  from tp len assms(2) have "is_count (a ! TRUE_POSITIVES_INDEX ! i)"
    by (simp add: list_all_length)
  then obtain x where x: "a ! TRUE_POSITIVES_INDEX ! i = Fin x" "0 \<le> x" "x < 2 ^ 62"
    "x = real_of_int \<lfloor>x\<rfloor>"
    by (rule is_count_cases)
  from fp len assms(2) have "is_count (a ! FALSE_POSITIVES_INDEX ! i)"
    by (simp add: list_all_length)
  then obtain y where y: "a ! FALSE_POSITIVES_INDEX ! i = Fin y" "0 \<le> y" "y < 2 ^ 62"
    "y = real_of_int \<lfloor>y\<rfloor>"
    by (rule is_count_cases)
  have pos: "positives a ! i = trunc x + trunc y"
    unfolding positives_def using len assms(2) x(1-3) y(1-3)
    by (intro positives_nth) simp_all
  have "real_of_int (trunc x) = x" using x(2,4) by (simp add: trunc_def)
  moreover have "real_of_int (trunc y) = y" using y(2,4) by (simp add: trunc_def)
  ultimately have sum: "real_of_int (positives a ! i) = x + y" using pos by simp
  have "column_positives a i = Some (x + y)"
    using x(1) y(1) by (simp add: column_positives_def)
  with x(1) y(1) sum show ?thesis by blast
qed

lemma column_positives_zero:
  assumes "confusion_tensor a w" "i < w"
  shows "column_positives a i = Some 0 \<longleftrightarrow> positives a ! i = 0"
proof -
  from column_positives_count [OF assms] obtain x y where
    c: "column_positives a i = Some (x + y)" and r: "real_of_int (positives a ! i) = x + y"
    by blast
  have "positives a ! i = 0 \<longleftrightarrow> x + y = 0" using r by (metis of_int_eq_0_iff)
  with c show ?thesis by simp
qed

lemma column_positives_above:
  assumes "confusion_tensor a w" "i < w"
  shows "(\<exists>p. column_positives a i = Some p \<and> 0 < p) \<longleftrightarrow> 0 < positives a ! i"
proof -
  from column_positives_count [OF assms] obtain x y where
    c: "column_positives a i = Some (x + y)" and r: "real_of_int (positives a ! i) = x + y"
    by blast
  have "0 < positives a ! i \<longleftrightarrow> 0 < x + y" using r by (metis of_int_0_less_iff)
  with c show ?thesis by simp
qed

text \<open>
  Claim C1. For a confusion-matrix tensor of width at least 1, \<^verbatim>\<open>_make_pr_entry\<close>
  returns an entry whose sequences have length \<^verbatim>\<open>end_index\<close> and are not empty (the
  thresholds are the first \<^verbatim>\<open>end_index\<close> of those passed in). The positives of a
  column are its true positive plus its false positive. Every column from
  \<^verbatim>\<open>end_index\<close> on has true positive plus false positive 0 and the column before it
  has not, unless it is column 0: the trimmed block is the maximal trailing block of such
  columns short of column 0. So \<^verbatim>\<open>end_index\<close> is one more than the largest index
  whose true positive plus false positive is above 0, and 1 when that sum is 0 in every
  column.
\<close>

theorem trim_boundary:
  assumes "confusion_tensor a w" "1 \<le> w"
  shows "\<exists>e. make_pr_entry s t a ths = Inr e \<and>
           length (true_positives e) = nat (end_index a) \<and>
           length (false_positives e) = nat (end_index a) \<and>
           length (true_negatives e) = nat (end_index a) \<and>
           length (false_negatives e) = nat (end_index a) \<and>
           length (precision e) = nat (end_index a) \<and>
           length (recall e) = nat (end_index a) \<and>
           thresholds e = take (nat (end_index a)) ths \<and>
           true_positives e \<noteq> [] \<and> false_positives e \<noteq> [] \<and>
           true_negatives e \<noteq> [] \<and> false_negatives e \<noteq> [] \<and>
           precision e \<noteq> [] \<and> recall e \<noteq> [] \<and>
           (ths \<noteq> [] \<longrightarrow> thresholds e \<noteq> []) \<and>
           1 \<le> end_index a \<and> end_index a \<le> int w \<and>
           (\<forall>i<w. \<exists>x y. a ! TRUE_POSITIVES_INDEX ! i = Fin x \<and>
                a ! FALSE_POSITIVES_INDEX ! i = Fin y \<and>
                column_positives a i = Some (x + y) \<and>
                real_of_int (positives a ! i) = x + y) \<and>
           (\<forall>i. nat (end_index a) \<le> i \<and> i < w \<longrightarrow> column_positives a i = Some 0) \<and>
           (1 < end_index a \<longrightarrow>
              (\<exists>p. column_positives a (nat (end_index a) - 1) = Some p \<and> 0 < p)) \<and>
           ((\<exists>i<w. \<exists>p. column_positives a i = Some p \<and> 0 < p) \<longrightarrow>
              end_index a =
                1 + int (Max {i. i < w \<and> (\<exists>p. column_positives a i = Some p \<and> 0 < p)})) \<and>
           ((\<forall>i<w. column_positives a i = Some 0) \<longrightarrow> end_index a = 1)"
proof -
  note cz = column_positives_zero [OF assms(1)]
  note ca = column_positives_above [OF assms(1)]
  note ep = end_index_positives [OF assms]
  from assms(1) have m: "is_matrix a 6 w"
    and fin: "list_all is_count (a ! TRUE_POSITIVES_INDEX)"
      "list_all is_count (a ! FALSE_POSITIVES_INDEX)"
      "list_all is_finite (a ! TRUE_NEGATIVES_INDEX)"
      "list_all is_finite (a ! FALSE_NEGATIVES_INDEX)"
    by (simp_all add: confusion_tensor_def)
  have fin': "list_all is_finite (a ! TRUE_POSITIVES_INDEX)"
    "list_all is_finite (a ! FALSE_POSITIVES_INDEX)"
    using fin(1,2) by (auto simp: list_all_iff is_count_finite)
  from m have six: "length a = 6" by (simp add: is_matrix_def)
  from make_pr_entry_total [OF six fin' fin(3,4)]
  obtain e where e: "make_pr_entry s t a ths = Inr e" by blast
  note lens = entry_lengths [OF m e]
  have k: "0 < nat (end_index a)" using ep(1) by simp
  have ths: "thresholds e = take (nat (end_index a)) ths"
    using make_pr_entry_take [OF e] by blast
  have ne: "true_positives e \<noteq> []" "false_positives e \<noteq> []"
    "true_negatives e \<noteq> []" "false_negatives e \<noteq> []"
    "precision e \<noteq> []" "recall e \<noteq> []"
    using lens(1-6) k by auto
  have ne_ths: "ths \<noteq> [] \<longrightarrow> thresholds e \<noteq> []"
    using ths k by (cases ths) auto
  have cols: "\<forall>i<w. \<exists>x y. a ! TRUE_POSITIVES_INDEX ! i = Fin x \<and>
                a ! FALSE_POSITIVES_INDEX ! i = Fin y \<and>
                column_positives a i = Some (x + y) \<and>
                real_of_int (positives a ! i) = x + y"
    using column_positives_count [OF assms(1)] by blast
  have zeros: "\<forall>i. nat (end_index a) \<le> i \<and> i < w \<longrightarrow> column_positives a i = Some 0"
    using ep(3) cz by blast
  have stop: "1 < end_index a \<longrightarrow>
              (\<exists>p. column_positives a (nat (end_index a) - 1) = Some p \<and> 0 < p)"
  proof
    assume gt: "1 < end_index a"
    have lt: "nat (end_index a) - 1 < w" using ep(2) gt by linarith
    have "0 \<le> positives a ! (nat (end_index a) - 1)"
      by (rule positives_nonneg [OF assms(1) lt])
    with ep(4) [OF gt] have "0 < positives a ! (nat (end_index a) - 1)" by simp
    with ca [OF lt] show "\<exists>p. column_positives a (nat (end_index a) - 1) = Some p \<and> 0 < p"
      by simp
  qed
  have sets: "{i. i < w \<and> (\<exists>p. column_positives a i = Some p \<and> 0 < p)} =
      {i. i < w \<and> 0 < positives a ! i}"
    using ca by blast
  have mx: "(\<exists>i<w. \<exists>p. column_positives a i = Some p \<and> 0 < p) \<longrightarrow>
              end_index a =
                1 + int (Max {i. i < w \<and> (\<exists>p. column_positives a i = Some p \<and> 0 < p)})"
  proof
    assume "\<exists>i<w. \<exists>p. column_positives a i = Some p \<and> 0 < p"
    then have "\<exists>i<w. 0 < positives a ! i" using ca by blast
    from ep(5) [OF this] show "end_index a =
        1 + int (Max {i. i < w \<and> (\<exists>p. column_positives a i = Some p \<and> 0 < p)})"
      unfolding sets .
  qed
  have allz: "(\<forall>i<w. column_positives a i = Some 0) \<longrightarrow> end_index a = 1"
  proof
    assume "\<forall>i<w. column_positives a i = Some 0"
    then have "\<forall>i<w. positives a ! i = 0" using cz by blast
    then show "end_index a = 1" by (rule ep(6))
  qed
  show ?thesis
    by (rule exI [of _ e])
       (intro conjI e lens(1-6) ths ne ne_ths ep(1,2) cols zeros stop mx allz)
qed


lemma is_fraction_cases:
  assumes "is_fraction v"
  obtains r where "v = Fin r" "0 < r" "r < 1"
  using assms by (cases v) (auto simp: is_fraction_def)


section \<open>The thresholds\<close>

lemma compute_thresholds_length: "length (compute_thresholds n) = nat n"
  by (simp add: compute_thresholds_def)

lemma compute_thresholds_nth:
  "i < nat n \<Longrightarrow> compute_thresholds n ! i = (real i + 1) / real_of_int n"
  by (simp add: compute_thresholds_def add.commute)

text \<open>
  Claim C2. For \<open>num_thresholds\<close> at least 1, \<^verbatim>\<open>_compute_thresholds\<close> returns
  \<open>num_thresholds\<close> values, the one at index \<open>i\<close> being \<open>(i + 1) / num_thresholds\<close>;
  they increase strictly, the first is \<open>1 / num_thresholds\<close> and above 0, the last
  is 1.
\<close>

theorem compute_thresholds_values:
  assumes "1 \<le> n"
  shows "length (compute_thresholds n) = nat n \<and>
         (\<forall>i<nat n. compute_thresholds n ! i = (real i + 1) / real_of_int n) \<and>
         sorted_wrt (<) (compute_thresholds n) \<and>
         compute_thresholds n ! 0 = 1 / real_of_int n \<and>
         0 < compute_thresholds n ! 0 \<and>
         compute_thresholds n ! (nat n - 1) = 1"
proof -
  have inc: "sorted_wrt (<) (compute_thresholds n)"
    unfolding sorted_wrt_iff_nth_less
    using assms
    by (auto simp: compute_thresholds_length compute_thresholds_nth divide_strict_right_mono)
  have first: "compute_thresholds n ! 0 = 1 / real_of_int n"
    using assms compute_thresholds_nth [of 0 n] by simp
  have "real (nat n - 1) + 1 = real_of_int n" using assms by (simp add: of_nat_diff)
  then have last: "compute_thresholds n ! (nat n - 1) = 1"
    using assms compute_thresholds_nth [of "nat n - 1" n] by simp
  show ?thesis
    using inc first last assms
    by (simp add: compute_thresholds_length compute_thresholds_nth)
qed


section \<open>Worked examples\<close>

lemma make_pr_entry_eval:
  assumes "6 \<le> length a"
    "end_index a = int k"
    "int_list (a ! TRUE_POSITIVES_INDEX) = Inr tps"
    "int_list (a ! FALSE_POSITIVES_INDEX) = Inr fps"
    "int_list (take k (a ! TRUE_NEGATIVES_INDEX)) = Inr tns"
    "int_list (take k (a ! FALSE_NEGATIVES_INDEX)) = Inr fns"
  shows "make_pr_entry s t a ths =
     Inr \<lparr> wall_time = t, step = s,
           precision = take k (a ! PRECISION_INDEX), recall = take k (a ! RECALL_INDEX),
           true_positives = take k tps, false_positives = take k fps,
           true_negatives = tns, false_negatives = fns,
           thresholds = take k ths \<rparr>"
proof -
  have e: "end_index_of (positives_of (a ! TRUE_POSITIVES_INDEX) (a ! FALSE_POSITIVES_INDEX)) = int k"
    using assms(2) by (simp add: end_index_def positives_def)
  have rows: "row a i = Inr (a ! i)" if "i < 6" for i
    using assms(1) that by (simp add: row_def)
  show ?thesis
    using assms(3-6) e
    by (simp add: make_pr_entry_def Let_def rows on_ok_def slice_to_def index_defs)
qed

lemmas cast_defs =
  trunc_def positives_of_def wrap_int64_def int64_min_def int64_max_def

lemma example_end_index: "end_index example_tensor = 2"
proof -
  have "positives example_tensor = [7, 4, 0]"
    by (simp add: positives_def example_tensor_def index_defs cast_defs)
  then show ?thesis by (simp add: end_index_def end_index_of_def trim_loop.simps)
qed

lemma nan_end_index: "end_index nan_tensor = 2"
proof -
  have "positives nan_tensor = [0, 4, 0]"
    by (simp add: positives_def nan_tensor_def index_defs cast_defs)
  then show ?thesis by (simp add: end_index_def end_index_of_def trim_loop.simps)
qed

lemma fraction_end_index: "end_index fraction_tensor = 1"
proof -
  have "positives fraction_tensor = [3, 0]"
    by (simp add: positives_def fraction_tensor_def index_defs cast_defs)
  then show ?thesis by (simp add: end_index_def end_index_of_def trim_loop.simps)
qed

lemma example_tensor_entry:
  "make_pr_entry s t example_tensor ths
   = Inr \<lparr> wall_time = t, step = s,
           precision = [Fin 0.71, Fin 0.75], recall = [Fin 1, Fin 1],
           true_positives = [5, 3], false_positives = [2, 1],
           true_negatives = [0, 1], false_negatives = [0, 0],
           thresholds = take 2 ths \<rparr>"
proof -
  have "make_pr_entry s t example_tensor ths =
     Inr \<lparr> wall_time = t, step = s,
           precision = take 2 (example_tensor ! PRECISION_INDEX),
           recall = take 2 (example_tensor ! RECALL_INDEX),
           true_positives = take 2 [5, 3, 0], false_positives = take 2 [2, 1, 0],
           true_negatives = [0, 1], false_negatives = [0, 0],
           thresholds = take 2 ths \<rparr>"
    by (rule make_pr_entry_eval)
       (simp_all add: example_end_index, simp_all add: example_tensor_def index_defs trunc_def)
  then show ?thesis by (simp add: example_tensor_def index_defs)
qed


lemma example_tensor_matrix: "is_matrix example_tensor 6 3"
  by (simp add: example_tensor_def is_matrix_def)

lemma example_tensor_confusion: "confusion_tensor example_tensor 3"
  by (simp add: confusion_tensor_def example_tensor_matrix)
     (simp add: example_tensor_def index_defs is_count_def is_finite_def)

lemma nan_tensor_entry:
  "make_pr_entry s t nan_tensor ths
   = Inr \<lparr> wall_time = t, step = s,
           precision = [NaN, Fin 0.75], recall = [Fin 0, Fin 0.75],
           true_positives = [0, 3], false_positives = [0, 1],
           true_negatives = [4, 2], false_negatives = [3, 1],
           thresholds = take 2 ths \<rparr>"
proof -
  have "make_pr_entry s t nan_tensor ths =
     Inr \<lparr> wall_time = t, step = s,
           precision = take 2 (nan_tensor ! PRECISION_INDEX),
           recall = take 2 (nan_tensor ! RECALL_INDEX),
           true_positives = take 2 [0, 3, 0], false_positives = take 2 [0, 1, 0],
           true_negatives = [4, 2], false_negatives = [3, 1],
           thresholds = take 2 ths \<rparr>"
    by (rule make_pr_entry_eval)
       (simp_all add: nan_end_index, simp_all add: nan_tensor_def index_defs trunc_def)
  then show ?thesis by (simp add: nan_tensor_def index_defs)
qed



text \<open>
  Claim C6. For the tensor with rows TP = [5, 3, 0], FP = [2, 1, 0], TN = [0, 1, 2],
  FN = [0, 0, 1], precision = [0.71, 0.75, NaN], recall = [1, 1, 0] and the thresholds
  [0.33, 0.67, 1], \<^verbatim>\<open>_make_pr_entry\<close> drops the column of index 2 and returns the
  sequences of length 2 below.
\<close>

theorem example_entry:
  "make_pr_entry s t example_tensor [0.33, 0.67, 1]
   = Inr \<lparr> wall_time = t, step = s,
           precision = [Fin 0.71, Fin 0.75], recall = [Fin 1, Fin 1],
           true_positives = [5, 3], false_positives = [2, 1],
           true_negatives = [0, 1], false_negatives = [0, 0],
           thresholds = [0.33, 0.67] \<rparr>"
  by (simp add: example_tensor_entry)

theorem compute_thresholds_values_witness:
  "(1::int) \<le> 4 \<and> length (compute_thresholds 4) = 4 \<and>
   compute_thresholds 4 ! 0 = 1 / 4 \<and> compute_thresholds 4 ! 3 = 1 \<and>
   sorted_wrt (<) (compute_thresholds 4)"
proof -
  have h: "(1::int) \<le> 4" by simp
  from compute_thresholds_values [OF h] show ?thesis by simp
qed

theorem entry_lengths_equal_witness:
  "is_matrix example_tensor 6 3 \<and> length [0.33, 0.67, 1 :: real] = 3 \<and>
   (\<exists>e. make_pr_entry 0 0 example_tensor [0.33, 0.67, 1] = Inr e \<and>
        length (precision e) = 2 \<and> length (recall e) = 2 \<and>
        length (true_positives e) = 2 \<and> length (false_positives e) = 2 \<and>
        length (true_negatives e) = 2 \<and> length (false_negatives e) = 2 \<and>
        length (thresholds e) = 2)"
proof -
  have h1: "is_matrix example_tensor 6 3" by (rule example_tensor_matrix)
  have h2: "length [0.33, 0.67, 1 :: real] = 3" by simp
  obtain e where h3: "make_pr_entry 0 0 example_tensor [0.33, 0.67, 1] = Inr e"
    by (simp add: example_tensor_entry)
  from entry_lengths_equal [OF h1 h2 h3] have "length (precision e) = 2 \<and> length (recall e) = 2 \<and>
        length (true_positives e) = 2 \<and> length (false_positives e) = 2 \<and>
        length (true_negatives e) = 2 \<and> length (false_negatives e) = 2 \<and>
        length (thresholds e) = 2"
    by (simp add: example_end_index)
  with h1 h2 h3 show ?thesis by blast
qed

theorem entry_rows_forwarded_witness:
  "\<exists>e. make_pr_entry 0 0 nan_tensor [] = Inr e \<and>
       precision e = [NaN, Fin 0.75] \<and> recall e = [Fin 0, Fin 0.75] \<and>
       length (true_positives e) = 2 \<and>
       nan_tensor ! TRUE_POSITIVES_INDEX ! 1 = Fin 3.7 \<and> true_positives e ! 1 = 3"
proof -
  obtain e where h: "make_pr_entry 0 0 nan_tensor [] = Inr e"
    by (simp add: nan_tensor_entry)
  note c = entry_rows_forwarded [OF h]
  note pr = c [THEN conjunct1]
  note re = c [THEN conjunct2, THEN conjunct1]
  note len = c [THEN conjunct2, THEN conjunct2, THEN conjunct1]
  note vtp = c [THEN conjunct2, THEN conjunct2, THEN conjunct2, THEN conjunct2,
    THEN conjunct2, THEN conjunct2, THEN conjunct1]
  have pr2: "precision e = [NaN, Fin 0.75]"
    using pr by (simp add: nan_end_index) (simp add: nan_tensor_def index_defs)
  have re2: "recall e = [Fin 0, Fin 0.75]"
    using re by (simp add: nan_end_index) (simp add: nan_tensor_def index_defs)
  have len2: "length (true_positives e) = 2"
    using len by (simp add: nan_end_index) (simp add: nan_tensor_def index_defs)
  have row: "nan_tensor ! TRUE_POSITIVES_INDEX ! 1 = Fin 3.7"
    by (simp add: nan_tensor_def index_defs)
  from vtp len2 have "\<exists>r. nan_tensor ! TRUE_POSITIVES_INDEX ! 1 = Fin r \<and>
            true_positives e ! 1 = (if 0 \<le> r then \<lfloor>r\<rfloor> else \<lceil>r\<rceil>)"
    by simp
  then obtain r where r: "nan_tensor ! TRUE_POSITIVES_INDEX ! 1 = Fin r"
    "true_positives e ! 1 = (if 0 \<le> r then \<lfloor>r\<rfloor> else \<lceil>r\<rceil>)" by blast
  from r(1) row have "r = 3.7" by simp
  with r(2) have v: "true_positives e ! 1 = 3" by simp
  show ?thesis
    by (intro exI [of _ e] conjI h pr2 re2 len2 row v)
qed

theorem trim_boundary_witness:
  "confusion_tensor example_tensor 3 \<and> (1::nat) \<le> 3 \<and>
   (\<exists>e. make_pr_entry 0 0 example_tensor [0.33, 0.67, 1] = Inr e \<and>
        length (true_positives e) = 2 \<and> true_positives e \<noteq> [] \<and>
        thresholds e = [0.33, 0.67] \<and> thresholds e \<noteq> []) \<and>
   column_positives example_tensor 2 = Some 0 \<and>
   end_index example_tensor =
     1 + int (Max {i. i < 3 \<and> (\<exists>p. column_positives example_tensor i = Some p \<and> 0 < p)})"
proof -
  have h1: "confusion_tensor example_tensor 3" by (rule example_tensor_confusion)
  have h2: "(1::nat) \<le> 3" by simp
  from trim_boundary [OF h1 h2, of 0 0 "[0.33, 0.67, 1]"] obtain e where
    e: "make_pr_entry 0 0 example_tensor [0.33, 0.67, 1] = Inr e" and
    len: "length (true_positives e) = nat (end_index example_tensor)" and
    ne: "true_positives e \<noteq> []" and
    ths: "thresholds e = take (nat (end_index example_tensor)) [0.33, 0.67, 1]" and
    ne_ths: "[0.33, 0.67, 1 :: real] \<noteq> [] \<longrightarrow> thresholds e \<noteq> []" and
    zeros: "\<forall>i. nat (end_index example_tensor) \<le> i \<and> i < 3 \<longrightarrow>
              column_positives example_tensor i = Some 0" and
    mx: "(\<exists>i<3. \<exists>p. column_positives example_tensor i = Some p \<and> 0 < p) \<longrightarrow>
           end_index example_tensor =
             1 + int (Max {i. i < 3 \<and> (\<exists>p. column_positives example_tensor i = Some p \<and> 0 < p)})"
    by (elim exE conjE) (rule that; assumption)
  have len2: "length (true_positives e) = 2" using len by (simp add: example_end_index)
  have ths2: "thresholds e = [0.33, 0.67]" using ths by (simp add: example_end_index)
  have ne2: "thresholds e \<noteq> []" using ne_ths by simp
  have z2: "column_positives example_tensor 2 = Some 0"
    using zeros [rule_format, of 2] by (simp add: example_end_index)
  have "column_positives example_tensor 0 = Some 7"
    by (simp add: column_positives_def example_tensor_def index_defs)
  then have "\<exists>i<3. \<exists>p. column_positives example_tensor i = Some p \<and> 0 < p"
    by (intro exI [of _ 0] exI [of _ 7]) simp
  with mx have m: "end_index example_tensor =
     1 + int (Max {i. i < 3 \<and> (\<exists>p. column_positives example_tensor i = Some p \<and> 0 < p)})"
    by (rule mp)
  show ?thesis
    by (intro conjI h1 h2 exI [of _ e] e len2 ne ths2 ne2 z2 m)
qed



section \<open>The aggregation over runs\<close>

lemma curves_for_run_missing:
  "Tensors mux r tg = None \<Longrightarrow> curves_for_run parse mux r tg = Inl (ValueError_no_curves r tg)"
  by (simp add: curves_for_run_def)

lemma pr_curves_loop_fail:
  "r \<in> set rns \<Longrightarrow> curves_for_run parse mux r tg = Inl e' \<Longrightarrow>
   \<exists>e. pr_curves_loop parse mux tg rns m = Inl e"
proof (induction rns arbitrary: m)
  case Nil
  then show ?case by simp
next
  case (Cons q qs)
  show ?case
  proof (cases "curves_for_run parse mux q tg")
    case (Inl e)
    then show ?thesis by (simp add: on_ok_def)
  next
    case (Inr es)
    with Cons.prems have "r \<in> set qs" by auto
    from Cons.IH [OF this Cons.prems(2)] Inr show ?thesis by (simp add: on_ok_def)
  qed
qed

lemma pr_curves_loop_first_fail:
  "\<forall>q\<in>set pre. \<exists>es. curves_for_run parse mux q tg = Inr es \<Longrightarrow>
   curves_for_run parse mux r tg = Inl e \<Longrightarrow>
   pr_curves_loop parse mux tg (pre @ r # post) m = Inl e"
  by (induction pre arbitrary: m) (auto simp: on_ok_def)

lemma pr_curves_loop_keys:
  "pr_curves_loop parse mux tg rns m = Inr m' \<Longrightarrow>
   fst ` set m' = set rns \<union> fst ` set m \<and> (distinct (map fst m) \<longrightarrow> distinct (map fst m'))"
proof (induction rns arbitrary: m)
  case Nil
  then show ?case by simp
next
  case (Cons q qs)
  from Cons.prems obtain es where es: "curves_for_run parse mux q tg = Inr es"
    and rest: "pr_curves_loop parse mux tg qs (AList.update q es m) = Inr m'"
    by (auto simp: on_ok_def split: sum.splits)
  from Cons.IH [OF rest] show ?case
    by (auto simp: dom_update distinct_update)
qed

lemma pr_curves_loop_lookup:
  "pr_curves_loop parse mux tg rns m = Inr m' \<Longrightarrow>
   (\<forall>r\<in>set rns. \<exists>es. map_of m' r = Some es \<and> curves_for_run parse mux r tg = Inr es) \<and>
   (\<forall>r. r \<notin> set rns \<longrightarrow> map_of m' r = map_of m r)"
proof (induction rns arbitrary: m)
  case Nil
  then show ?case by simp
next
  case (Cons q qs)
  from Cons.prems obtain es where es: "curves_for_run parse mux q tg = Inr es"
    and rest: "pr_curves_loop parse mux tg qs (AList.update q es m) = Inr m'"
    by (auto simp: on_ok_def split: sum.splits)
  from Cons.IH [OF rest] have
    in_qs: "\<forall>r\<in>set qs. \<exists>es. map_of m' r = Some es \<and> curves_for_run parse mux r tg = Inr es"
    and out_qs: "\<forall>r. r \<notin> set qs \<longrightarrow> map_of m' r = map_of (AList.update q es m) r"
    by blast+
  have "\<exists>es. map_of m' q = Some es \<and> curves_for_run parse mux q tg = Inr es"
  proof (cases "q \<in> set qs")
    case True
    with in_qs show ?thesis by blast
  next
    case False
    with out_qs es show ?thesis by (simp add: update_conv')
  qed
  moreover have "map_of m' r = map_of m r" if "r \<notin> set (q # qs)" for r
    using that out_qs by (simp add: update_conv')
  ultimately show ?case using in_qs by auto
qed

text \<open>
  Claim C3. If a requested run has no tensor events for the tag, \<^verbatim>\<open>pr_curves_impl\<close>
  raises and returns no mapping, whatever the other runs hold. When the runs before the
  first such run are processed without an exception, the exception is the ValueError
  naming that run and the tag.
\<close>

theorem pr_curves_impl_all_or_nothing:
  assumes "r \<in> set rns" "Tensors mux r tg = None"
  shows "(\<exists>e. pr_curves_impl parse mux rns tg = Inl e) \<and>
         (\<forall>pre post. rns = pre @ r # post \<and>
              (\<forall>q\<in>set pre. \<exists>es. curves_for_run parse mux q tg = Inr es) \<longrightarrow>
              pr_curves_impl parse mux rns tg = Inl (ValueError_no_curves r tg))"
proof -
  note miss = curves_for_run_missing [OF assms(2), of parse]
  have "\<exists>e. pr_curves_impl parse mux rns tg = Inl e"
    unfolding pr_curves_impl_def by (rule pr_curves_loop_fail [OF assms(1) miss])
  moreover have "pr_curves_impl parse mux rns tg = Inl (ValueError_no_curves r tg)"
    if "rns = pre @ r # post" "\<forall>q\<in>set pre. \<exists>es. curves_for_run parse mux q tg = Inr es"
    for pre post
    unfolding pr_curves_impl_def that(1)
    by (rule pr_curves_loop_first_fail [OF that(2) miss])
  ultimately show ?thesis by blast
qed

text \<open>
  Claim C10. The mapping returned by \<^verbatim>\<open>pr_curves_impl\<close> has one entry for each distinct
  requested run: its keys are distinct, they are the requested runs, and their number is
  the number of distinct requested runs; each run maps to the entries computed for it.
\<close>

theorem pr_curves_impl_keys:
  assumes "pr_curves_impl parse mux rns tg = Inr m"
  shows "distinct (map fst m) \<and> set (map fst m) = set rns \<and> length m = card (set rns) \<and>
         (\<forall>r\<in>set rns. \<exists>es. map_of m r = Some es \<and> curves_for_run parse mux r tg = Inr es)"
proof -
  from assms have loop: "pr_curves_loop parse mux tg rns [] = Inr m"
    by (simp add: pr_curves_impl_def)
  from pr_curves_loop_keys [OF loop] have d: "distinct (map fst m)"
    and k: "set (map fst m) = set rns" by simp_all
  from d have "card (set (map fst m)) = length m"
    using distinct_card [of "map fst m"] by simp
  with k have "length m = card (set rns)" by simp
  with d k pr_curves_loop_lookup [OF loop] show ?thesis by blast
qed


lemma example_thresholds: "compute_thresholds 3 = [1 / 3, 2 / 3, 1]"
proof -
  have "[1..3::int] = [1, 2, 3]" by (simp add: upto.simps)
  then show ?thesis by (simp add: compute_thresholds_def)
qed

lemma example_curves_A:
  "curves_for_run example_parse example_mux ''A'' ''pr'' = Inr [example_curve]"
  by (simp add: curves_for_run_def example_mux_def example_metadata_def example_parse_def
      on_ok_def example_thresholds process_tensor_event_def example_event_def
      example_tensor_entry example_curve_def)

lemma example_tensors_B: "Tensors example_mux ''B'' ''pr'' = None"
  by (simp add: example_mux_def)

theorem pr_curves_impl_all_or_nothing_witness:
  "''B'' \<in> set [''A'', ''B''] \<and> Tensors example_mux ''B'' ''pr'' = None \<and>
   pr_curves_impl example_parse example_mux [''A'', ''B''] ''pr''
     = Inl (ValueError_no_curves ''B'' ''pr'')"
proof -
  have h1: "''B'' \<in> set [''A'', ''B'']" by simp
  note h2 = example_tensors_B
  note inst = pr_curves_impl_all_or_nothing [OF h1 h2, of example_parse]
  note at_A = conjunct2 [OF inst, THEN spec, of "[''A'']", THEN spec, of "[]"]
  from at_A have "pr_curves_impl example_parse example_mux [''A'', ''B''] ''pr''
     = Inl (ValueError_no_curves ''B'' ''pr'')"
    by (simp add: example_curves_A)
  with h1 h2 show ?thesis by blast
qed

text \<open>
  The exception is not always the ValueError of the run without data: when an earlier run
  has tensor events but no summary metadata, the KeyError of that run ends the call.
\<close>

theorem pr_curves_impl_no_data_error_counterexample:
  "''B'' \<in> set [''A'', ''B''] \<and>
   Tensors metadata_missing_mux ''B'' ''pr'' = None \<and>
   pr_curves_impl example_parse metadata_missing_mux [''A'', ''B''] ''pr'' = Inl KeyError \<and>
   pr_curves_impl example_parse metadata_missing_mux [''A'', ''B''] ''pr''
     \<noteq> Inl (ValueError_no_curves ''B'' ''pr'')"
  by (simp add: pr_curves_impl_def on_ok_def curves_for_run_def metadata_missing_mux_def)

lemma example_impl_AA:
  "pr_curves_impl example_parse example_mux [''A'', ''A''] ''pr'' = Inr [(''A'', [example_curve])]"
  by (simp add: pr_curves_impl_def on_ok_def example_curves_A)

theorem pr_curves_impl_keys_witness:
  "pr_curves_impl example_parse example_mux [''A'', ''A''] ''pr'' = Inr [(''A'', [example_curve])] \<and>
   length [(''A'', [example_curve])] = card (set [''A'', ''A''])"
proof -
  note h = example_impl_AA
  from pr_curves_impl_keys [OF h] have
    "length [(''A'', [example_curve])] = card (set [''A'', ''A''])" by blast
  with h show ?thesis by blast
qed

text \<open>
  Claim C7. On a request without a \<^verbatim>\<open>run\<close> parameter the route calls
  \<^verbatim>\<open>Respond\<close> with the message as content, with 400 in the position of the content
  type and with no status code; the route of a ValueError, below it, passes the content
  type \<^verbatim>\<open>text/plain\<close> and the status code 400.
\<close>

theorem pr_curves_route_no_runs:
  "pr_curves_route parse mux [(''tag'', ''pr'')] =
     Inr \<lparr> content = Text ''No runs provided when fetching PR curve data'',
           content_type = PyInt 400, code = None \<rparr>"
  by (simp add: pr_curves_route_def getlist_def)

lemma pr_curves_route_value_error:
  "pr_curves_route example_parse example_mux [(''run'', ''B''), (''tag'', ''pr'')] =
     Inr \<lparr> content = ErrorText (ValueError_no_curves ''B'' ''pr''),
           content_type = PyStr ''text/plain'', code = Some 400 \<rparr>"
  by (simp add: pr_curves_route_def getlist_def get_def pr_curves_impl_def on_ok_def
      curves_for_run_missing example_tensors_B)


section \<open>The tag catalog of a consistent store\<close>

lemma map_of_Some_key: "map_of al k = Some v \<Longrightarrow> k \<in> fst ` set al"
  by (force dest: map_of_SomeD)

lemma update_keys_present:
  "map_of al k = Some v \<Longrightarrow> map fst (AList.update k v' al) = map fst al"
  using map_of_Some_key [of al k v] by (simp add: update_keys)

lemma tags_of_run_ok:
  assumes "map_of res rn = Some tgs" "metadata_known mux rn items"
  shows "\<exists>res' tgs'. tags_of_run md mux rn items res = Inr res' \<and>
      map fst res' = map fst res \<and>
      (\<forall>r. r \<noteq> rn \<longrightarrow> map_of res' r = map_of res r) \<and>
      map_of res' rn = Some tgs' \<and>
      fst ` set tgs' = fst ` set tgs \<union> fst ` set items \<and>
      (distinct (map fst tgs) \<longrightarrow> distinct (map fst tgs')) \<and>
      (\<forall>tg. map_of tgs' tg =
         (if tg \<in> fst ` set items
          then map_option (tag_entry md) (SummaryMetadata mux rn tg)
          else map_of tgs tg))"
  using assms
proof (induction items arbitrary: res tgs)
  case Nil
  then show ?case by simp
next
  case (Cons item rest)
  obtain tg c where item: "item = (tg, c)" by (cases item)
  from Cons.prems(2) item obtain sm where sm: "SummaryMetadata mux rn tg = Some sm"
    and known: "metadata_known mux rn rest"
    by (auto simp: metadata_known_def)
  define tgs1 where "tgs1 = AList.update tg (tag_entry md sm) tgs"
  define res1 where "res1 = AList.update rn tgs1 res"
  have step: "tags_of_run md mux rn (item # rest) res = tags_of_run md mux rn rest res1"
    using item sm Cons.prems(1) by (simp add: res1_def tgs1_def)
  have look1: "map_of res1 rn = Some tgs1"
    by (simp add: res1_def update_conv')
  from Cons.IH [OF look1 known] obtain res' tgs' where
    run: "tags_of_run md mux rn rest res1 = Inr res'" and
    keys: "map fst res' = map fst res1" and
    others: "\<forall>r. r \<noteq> rn \<longrightarrow> map_of res' r = map_of res1 r" and
    look: "map_of res' rn = Some tgs'" and
    dom: "fst ` set tgs' = fst ` set tgs1 \<union> fst ` set rest" and
    dist: "distinct (map fst tgs1) \<longrightarrow> distinct (map fst tgs')" and
    vals: "\<forall>t. map_of tgs' t =
         (if t \<in> fst ` set rest
          then map_option (tag_entry md) (SummaryMetadata mux rn t)
          else map_of tgs1 t)"
    by blast
  have keys1: "map fst res1 = map fst res"
    unfolding res1_def by (rule update_keys_present [OF Cons.prems(1)])
  have others1: "map_of res1 r = map_of res r" if "r \<noteq> rn" for r
    using that by (simp add: res1_def update_conv')
  have dom1: "fst ` set tgs1 = insert tg (fst ` set tgs)"
    by (simp add: tgs1_def dom_update)
  have dist1: "distinct (map fst tgs) \<Longrightarrow> distinct (map fst tgs1)"
    by (simp add: tgs1_def distinct_update)
  have vals1: "map_of tgs1 t = (if t = tg then Some (tag_entry md sm) else map_of tgs t)" for t
    by (simp add: tgs1_def update_conv')
  have vals': "map_of tgs' t =
         (if t \<in> fst ` set (item # rest)
          then map_option (tag_entry md) (SummaryMetadata mux rn t)
          else map_of tgs t)" for t
    using vals vals1 sm item by auto
  have dom': "fst ` set tgs' = fst ` set tgs \<union> fst ` set (item # rest)"
    using dom dom1 item by auto
  show ?case
    using step run keys keys1 others others1 look dom' dist dist1 vals' by auto
qed


lemma key_map_of_Some: "k \<in> fst ` set al \<Longrightarrow> \<exists>v. map_of al k = Some v"
  by (cases "map_of al k") (simp_all add: map_of_eq_None_iff)

lemma plugin_tags_Cons:
  "plugin_tags ((q, ttc) # rest) rn =
     (if q = rn then map fst ttc @ plugin_tags rest rn else plugin_tags rest rn)"
  by (simp add: plugin_tags_def)

lemma tags_loop_ok:
  assumes "list_all (\<lambda>p. fst p \<in> fst ` set res \<and> metadata_known mux (fst p) (snd p)) mapping"
  shows "\<exists>res'. tags_loop md mux mapping res = Inr res' \<and>
      map fst res' = map fst res \<and>
      (\<forall>rn tgs. map_of res rn = Some tgs \<longrightarrow>
         (\<exists>tgs'. map_of res' rn = Some tgs' \<and>
            fst ` set tgs' = fst ` set tgs \<union> set (plugin_tags mapping rn) \<and>
            (distinct (map fst tgs) \<longrightarrow> distinct (map fst tgs')) \<and>
            (\<forall>tg. map_of tgs' tg =
               (if tg \<in> set (plugin_tags mapping rn)
                then map_option (tag_entry md) (SummaryMetadata mux rn tg)
                else map_of tgs tg))))"
  using assms
proof (induction mapping arbitrary: res)
  case Nil
  then show ?case by (simp add: plugin_tags_def)
next
  case (Cons p rest)
  obtain q ttc where p: "p = (q, ttc)" by (cases p)
  from Cons.prems p have q: "q \<in> fst ` set res" and known: "metadata_known mux q ttc"
    and rest: "list_all (\<lambda>p. fst p \<in> fst ` set res \<and> metadata_known mux (fst p) (snd p)) rest"
    by simp_all
  from key_map_of_Some [OF q] obtain tgsq where tgsq: "map_of res q = Some tgsq" by blast
  from tags_of_run_ok [OF tgsq known, of md] obtain res1 tgs1 where
    run1: "tags_of_run md mux q ttc res = Inr res1" and
    keys1: "map fst res1 = map fst res" and
    others1: "\<forall>r. r \<noteq> q \<longrightarrow> map_of res1 r = map_of res r" and
    look1: "map_of res1 q = Some tgs1" and
    dom1: "fst ` set tgs1 = fst ` set tgsq \<union> fst ` set ttc" and
    dist1: "distinct (map fst tgsq) \<longrightarrow> distinct (map fst tgs1)" and
    vals1: "\<forall>tg. map_of tgs1 tg =
         (if tg \<in> fst ` set ttc
          then map_option (tag_entry md) (SummaryMetadata mux q tg)
          else map_of tgsq tg)"
    by blast
  have "set (map fst res1) = set (map fst res)" using keys1 by simp
  then have same: "fst ` set res1 = fst ` set res" by simp
  have rest1: "list_all (\<lambda>p. fst p \<in> fst ` set res1 \<and> metadata_known mux (fst p) (snd p)) rest"
    using rest unfolding same .
  from Cons.IH [OF rest1] obtain res' where
    run: "tags_loop md mux rest res1 = Inr res'" and
    keys: "map fst res' = map fst res1" and
    each: "\<forall>rn tgs. map_of res1 rn = Some tgs \<longrightarrow>
         (\<exists>tgs'. map_of res' rn = Some tgs' \<and>
            fst ` set tgs' = fst ` set tgs \<union> set (plugin_tags rest rn) \<and>
            (distinct (map fst tgs) \<longrightarrow> distinct (map fst tgs')) \<and>
            (\<forall>tg. map_of tgs' tg =
               (if tg \<in> set (plugin_tags rest rn)
                then map_option (tag_entry md) (SummaryMetadata mux rn tg)
                else map_of tgs tg)))"
    by blast
  have whole: "tags_loop md mux (p # rest) res = Inr res'"
    using p run1 run by (simp add: on_ok_def)
  have goal: "\<exists>tgs'. map_of res' rn = Some tgs' \<and>
            fst ` set tgs' = fst ` set tgs \<union> set (plugin_tags (p # rest) rn) \<and>
            (distinct (map fst tgs) \<longrightarrow> distinct (map fst tgs')) \<and>
            (\<forall>tg. map_of tgs' tg =
               (if tg \<in> set (plugin_tags (p # rest) rn)
                then map_option (tag_entry md) (SummaryMetadata mux rn tg)
                else map_of tgs tg))"
    if look: "map_of res rn = Some tgs" for rn tgs
  proof (cases "rn = q")
    case True
    with look tgsq have eq: "tgs = tgsq" by simp
    from each look1 obtain tgs' where
      l: "map_of res' q = Some tgs'" and
      d: "fst ` set tgs' = fst ` set tgs1 \<union> set (plugin_tags rest q)" and
      di: "distinct (map fst tgs1) \<longrightarrow> distinct (map fst tgs')" and
      v: "\<forall>tg. map_of tgs' tg =
               (if tg \<in> set (plugin_tags rest q)
                then map_option (tag_entry md) (SummaryMetadata mux q tg)
                else map_of tgs1 tg)"
      by blast
    have "fst ` set tgs' = fst ` set tgs \<union> set (plugin_tags (p # rest) rn)"
      using d dom1 eq True p by (auto simp: plugin_tags_Cons)
    moreover have "distinct (map fst tgs) \<longrightarrow> distinct (map fst tgs')"
      using di dist1 eq by simp
    moreover have "\<forall>tg. map_of tgs' tg =
               (if tg \<in> set (plugin_tags (p # rest) rn)
                then map_option (tag_entry md) (SummaryMetadata mux rn tg)
                else map_of tgs tg)"
      using v vals1 eq True p by (auto simp: plugin_tags_Cons)
    ultimately show ?thesis using l True by blast
  next
    case False
    with others1 look have "map_of res1 rn = Some tgs" by simp
    with each obtain tgs' where
      "map_of res' rn = Some tgs'"
      "fst ` set tgs' = fst ` set tgs \<union> set (plugin_tags rest rn)"
      "distinct (map fst tgs) \<longrightarrow> distinct (map fst tgs')"
      "\<forall>tg. map_of tgs' tg =
               (if tg \<in> set (plugin_tags rest rn)
                then map_option (tag_entry md) (SummaryMetadata mux rn tg)
                else map_of tgs tg)"
      by blast
    with False p show ?thesis by (simp add: plugin_tags_Cons)
  qed
  show ?case
    using whole keys keys1 goal by simp
qed

lemma empty_result:
  fixes acc :: tags_result
  shows "fst ` set (fold (\<lambda>rn result. AList.update rn [] result) rns acc) = set rns \<union> fst ` set acc \<and>
   (distinct (map fst acc) \<longrightarrow>
      distinct (map fst (fold (\<lambda>rn result. AList.update rn [] result) rns acc))) \<and>
   (\<forall>r. map_of (fold (\<lambda>rn result. AList.update rn [] result) rns acc) r =
      (if r \<in> set rns then Some [] else map_of acc r))"
proof (induction rns arbitrary: acc)
  case Nil
  then show ?case by simp
next
  case (Cons q qs)
  from Cons.IH [of "AList.update q [] acc"] show ?case
    by (auto simp: dom_update distinct_update update_conv')
qed


text \<open>
  Claim C8. On a store whose index is consistent, \<^verbatim>\<open>tags_impl\<close> returns a mapping with
  an entry for every known run. The entry of a run holds exactly the tags the plugin's
  index lists under that run, so a run without such tags maps to the empty mapping; each
  tag maps to the display name and to the sanitized description of its summary metadata.
\<close>

theorem tags_impl_catalog:
  assumes "store_consistent mux plugin_name"
  shows "\<exists>result. tags_impl md plugin_name mux = Inr result \<and>
      distinct (map fst result) \<and> fst ` set result = set (Runs mux) \<and>
      (\<forall>rn\<in>set (Runs mux). \<exists>tgs. map_of result rn = Some tgs \<and>
         distinct (map fst tgs) \<and>
         fst ` set tgs = set (plugin_tags (PluginRunToTagToContent mux plugin_name) rn) \<and>
         (plugin_tags (PluginRunToTagToContent mux plugin_name) rn = [] \<longrightarrow> tgs = []) \<and>
         (\<forall>tg\<in>set (plugin_tags (PluginRunToTagToContent mux plugin_name) rn).
            \<exists>sm. SummaryMetadata mux rn tg = Some sm \<and>
              map_of tgs tg =
                Some \<lparr> displayName = display_name sm,
                       description = md (summary_description sm) \<rparr>))"
proof -
  define mapping where "mapping = PluginRunToTagToContent mux plugin_name"
  define res0 :: tags_result where "res0 = fold (\<lambda>rn result. AList.update rn [] result) (Runs mux) []"
  have keys0: "fst ` set res0 = set (Runs mux)"
    and dist0: "distinct (map fst res0)"
    and look0: "\<And>r. map_of res0 r = (if r \<in> set (Runs mux) then Some [] else None)"
  proof -
    note init = empty_result [of "Runs mux" "[]"]
    from init show "fst ` set res0 = set (Runs mux)" by (simp add: res0_def)
    from init show "distinct (map fst res0)" by (simp add: res0_def)
    from init show "map_of res0 r = (if r \<in> set (Runs mux) then Some [] else None)" for r
      by (simp add: res0_def)
  qed
  have pre: "list_all (\<lambda>p. fst p \<in> fst ` set res0 \<and> metadata_known mux (fst p) (snd p)) mapping"
    using assms by (simp add: store_consistent_def mapping_def keys0)
  from tags_loop_ok [OF pre, of md] obtain result where
    run: "tags_loop md mux mapping res0 = Inr result" and
    keys: "map fst result = map fst res0" and
    each: "\<forall>rn tgs. map_of res0 rn = Some tgs \<longrightarrow>
         (\<exists>tgs'. map_of result rn = Some tgs' \<and>
            fst ` set tgs' = fst ` set tgs \<union> set (plugin_tags mapping rn) \<and>
            (distinct (map fst tgs) \<longrightarrow> distinct (map fst tgs')) \<and>
            (\<forall>tg. map_of tgs' tg =
               (if tg \<in> set (plugin_tags mapping rn)
                then map_option (tag_entry md) (SummaryMetadata mux rn tg)
                else map_of tgs tg)))"
    by blast
  have impl: "tags_impl md plugin_name mux = Inr result"
    using run by (simp add: tags_impl_def mapping_def res0_def)
  have dist: "distinct (map fst result)" using keys dist0 by simp
  have "set (map fst result) = set (map fst res0)" using keys by simp
  then have dom: "fst ` set result = set (Runs mux)" using keys0 by simp
  have per_run: "\<exists>tgs. map_of result rn = Some tgs \<and>
         distinct (map fst tgs) \<and>
         fst ` set tgs = set (plugin_tags mapping rn) \<and>
         (plugin_tags mapping rn = [] \<longrightarrow> tgs = []) \<and>
         (\<forall>tg\<in>set (plugin_tags mapping rn).
            \<exists>sm. SummaryMetadata mux rn tg = Some sm \<and>
              map_of tgs tg =
                Some \<lparr> displayName = display_name sm,
                       description = md (summary_description sm) \<rparr>)"
    if rn: "rn \<in> set (Runs mux)" for rn
  proof -
    from look0 [of rn] rn have l0: "map_of res0 rn = Some []" by simp
    from each [rule_format, OF l0] obtain tgs where
      l: "map_of result rn = Some tgs" and
      d0: "fst ` set tgs = fst ` set ([] :: (tag \<times> tag_info) list) \<union> set (plugin_tags mapping rn)" and
      di0: "distinct (map fst ([] :: (tag \<times> tag_info) list)) \<longrightarrow> distinct (map fst tgs)" and
      v0: "\<forall>tg. map_of tgs tg =
               (if tg \<in> set (plugin_tags mapping rn)
                then map_option (tag_entry md) (SummaryMetadata mux rn tg)
                else map_of ([] :: (tag \<times> tag_info) list) tg)"
      by (elim exE conjE)
    from d0 have d: "fst ` set tgs = set (plugin_tags mapping rn)" by simp
    from di0 have di: "distinct (map fst tgs)" by simp
    from v0 have v: "\<forall>tg. map_of tgs tg =
               (if tg \<in> set (plugin_tags mapping rn)
                then map_option (tag_entry md) (SummaryMetadata mux rn tg)
                else None)" by simp
    have empty: "tgs = []" if "plugin_tags mapping rn = []"
      using d that by simp
    have entry: "\<exists>sm. SummaryMetadata mux rn tg = Some sm \<and>
              map_of tgs tg =
                Some \<lparr> displayName = display_name sm,
                       description = md (summary_description sm) \<rparr>"
      if tg: "tg \<in> set (plugin_tags mapping rn)" for tg
    proof -
      from tg d have "tg \<in> fst ` set tgs" by simp
      from key_map_of_Some [OF this] obtain info where info: "map_of tgs tg = Some info" by blast
      from v [rule_format, of tg] tg info
      have "map_option (tag_entry md) (SummaryMetadata mux rn tg) = Some info" by simp
      then obtain sm where "SummaryMetadata mux rn tg = Some sm" "info = tag_entry md sm"
        by (cases "SummaryMetadata mux rn tg") auto
      with info show ?thesis by (simp add: tag_entry_def)
    qed
    show ?thesis
      by (rule exI [of _ tgs]) (intro conjI impI ballI l di d empty entry; assumption)
  qed
  show ?thesis
    unfolding mapping_def [symmetric]
    by (rule exI [of _ result]) (intro conjI ballI impl dist dom per_run; assumption)
qed


lemma example_store_consistent: "store_consistent example_mux ''pr_curves''"
  by (simp add: store_consistent_def metadata_known_def example_mux_def)

theorem tags_impl_catalog_witness:
  "store_consistent example_mux ''pr_curves'' \<and>
   (\<exists>result. tags_impl example_md ''pr_curves'' example_mux = Inr result \<and>
      fst ` set result = {''A'', ''B''} \<and> map_of result ''B'' = Some [])"
proof -
  note h = example_store_consistent
  from tags_impl_catalog [OF h, of example_md] obtain result where
    res: "tags_impl example_md ''pr_curves'' example_mux = Inr result \<and>
      distinct (map fst result) \<and> fst ` set result = set (Runs example_mux) \<and>
      (\<forall>rn\<in>set (Runs example_mux). \<exists>tgs. map_of result rn = Some tgs \<and>
         distinct (map fst tgs) \<and>
         fst ` set tgs = set (plugin_tags (PluginRunToTagToContent example_mux ''pr_curves'') rn) \<and>
         (plugin_tags (PluginRunToTagToContent example_mux ''pr_curves'') rn = [] \<longrightarrow> tgs = []) \<and>
         (\<forall>tg\<in>set (plugin_tags (PluginRunToTagToContent example_mux ''pr_curves'') rn).
            \<exists>sm. SummaryMetadata example_mux rn tg = Some sm \<and>
              map_of tgs tg =
                Some \<lparr> displayName = display_name sm,
                       description = example_md (summary_description sm) \<rparr>))"
    by (rule exE)
  note r = res [THEN conjunct1]
  note k = res [THEN conjunct2, THEN conjunct2, THEN conjunct1]
  note each = res [THEN conjunct2, THEN conjunct2, THEN conjunct2]
  have inB: "''B'' \<in> set (Runs example_mux)" by (simp add: example_mux_def)
  have noB: "plugin_tags (PluginRunToTagToContent example_mux ''pr_curves'') ''B'' = []"
    by (simp add: example_mux_def plugin_tags_def)
  from bspec [OF each inB] obtain tgs where
    l: "map_of result ''B'' = Some tgs" and
    e: "plugin_tags (PluginRunToTagToContent example_mux ''pr_curves'') ''B'' = [] \<longrightarrow> tgs = []"
    by (elim exE conjE)
  from e noB have "tgs = []" by (rule mp)
  with l have lB: "map_of result ''B'' = Some []" by simp
  have "set (Runs example_mux) = {''A'', ''B''}" by (simp add: example_mux_def)
  with k have kAB: "fst ` set result = {''A'', ''B''}" by simp
  show ?thesis
    by (intro conjI h exI [of _ result] r kAB lB)
qed


end
